theory Spec2Isabelle
  imports Main
begin

section \<open>Library functions used by main.go\<close>

text \<open>
  Go strings are byte sequences; they are modelled as \<open>string\<close> (a list of 8-bit
  characters). The functions of the Go standard library that the program calls on
  strings are written out below, for the arguments the program passes.
\<close>

subsection \<open>strings.TrimSpace\<close>

text \<open>
  \<open>strings.TrimSpace\<close> removes leading and trailing white space as defined by Unicode
  (\<open>unicode.IsSpace\<close>). On a byte string these are the UTF-8 encodings of U+0009..U+000D,
  U+0020, U+0085, U+00A0, U+1680, U+2000..U+200A, U+2028, U+2029, U+202F, U+205F, U+3000.
\<close>

definition space_encodings :: "string list" where
  "space_encodings =
     [[CHR 0x09], [CHR 0x0A], [CHR 0x0B], [CHR 0x0C], [CHR 0x0D], [CHR 0x20],
      [CHR 0xC2, CHR 0x85], [CHR 0xC2, CHR 0xA0], [CHR 0xE1, CHR 0x9A, CHR 0x80],
      [CHR 0xE2, CHR 0x80, CHR 0x80], [CHR 0xE2, CHR 0x80, CHR 0x81],
      [CHR 0xE2, CHR 0x80, CHR 0x82], [CHR 0xE2, CHR 0x80, CHR 0x83],
      [CHR 0xE2, CHR 0x80, CHR 0x84], [CHR 0xE2, CHR 0x80, CHR 0x85],
      [CHR 0xE2, CHR 0x80, CHR 0x86], [CHR 0xE2, CHR 0x80, CHR 0x87],
      [CHR 0xE2, CHR 0x80, CHR 0x88], [CHR 0xE2, CHR 0x80, CHR 0x89],
      [CHR 0xE2, CHR 0x80, CHR 0x8A], [CHR 0xE2, CHR 0x80, CHR 0xA8],
      [CHR 0xE2, CHR 0x80, CHR 0xA9], [CHR 0xE2, CHR 0x80, CHR 0xAF],
      [CHR 0xE2, CHR 0x81, CHR 0x9F], [CHR 0xE3, CHR 0x80, CHR 0x80]]"

definition space_width :: "string list \<Rightarrow> string \<Rightarrow> nat" where
  \<comment> \<open>the number of leading bytes of \<open>s\<close> that form one of the encodings, 0 when none does\<close>
  "space_width encs s =
     (case find (\<lambda>e. e \<noteq> [] \<and> take (length e) s = e) encs of
        None \<Rightarrow> 0
      | Some e \<Rightarrow> length e)"

text \<open>
  \<open>trim_leading encs k s\<close> drops \<open>k\<close> bytes (the rest of a white-space character already
  recognised) and then every further leading white-space character.
\<close>

fun trim_leading :: "string list \<Rightarrow> nat \<Rightarrow> string \<Rightarrow> string" where
  "trim_leading encs k [] = []"
| "trim_leading encs (Suc k) (c # cs) = trim_leading encs k cs"
| "trim_leading encs 0 (c # cs) =
     (case space_width encs (c # cs) of
        0 \<Rightarrow> c # cs
      | Suc n \<Rightarrow> trim_leading encs n cs)"

text \<open>
  The trailing white space is recognised from the end (\<open>utf8.DecodeLastRuneInString\<close>),
  which on the encodings above is the same as trimming the reversed string by the
  reversed encodings.
\<close>

definition TrimSpace :: "string \<Rightarrow> string" where
  "TrimSpace s =
     rev (trim_leading (map rev space_encodings) 0 (rev (trim_leading space_encodings 0 s)))"

subsection \<open>strings.Split\<close>

text \<open>
  \<open>strings.Split(s, sep)\<close> for a separator of one byte (the program passes \<open>"\n"\<close>): the
  substrings between the separators, so one more than the number of separators. The
  result is never empty: \<open>Split("", "\n")\<close> is the one-element slice holding \<open>""\<close>.
\<close>

fun Split :: "string \<Rightarrow> char \<Rightarrow> string list" where
  "Split [] sep = [[]]"
| "Split (c # cs) sep =
     (if c = sep then [] # Split cs sep
      else (case Split cs sep of
              [] \<Rightarrow> [[c]]
            | x # xs \<Rightarrow> (c # x) # xs))"

definition newline :: char where
  "newline = CHR 0x0A"

subsection \<open>regexp: the pattern \<open>OriginAS:\s+AS(\d+)\<close>\<close>

text \<open>
  In Go's regexp syntax \<open>\s\<close> is the class \<open>[\t\n\f\r ]\<close> and \<open>\d\<close> is \<open>[0-9]\<close>.
  \<open>FindStringSubmatch\<close> returns the leftmost match, with greedy repetition: since no
  white-space byte is \<open>A\<close> and the digits end the pattern, the match at a position takes
  the whole run of white space and the whole run of digits. Its result is the slice
  holding the matched text and the text of group 1, or nil (here: the empty list).
\<close>

definition re_space :: "char \<Rightarrow> bool" where
  "re_space c \<longleftrightarrow> c \<in> {CHR 0x09, CHR 0x0A, CHR 0x0C, CHR 0x0D, CHR 0x20}"

definition re_digit :: "char \<Rightarrow> bool" where
  "re_digit c \<longleftrightarrow> 48 \<le> (of_char c :: nat) \<and> (of_char c :: nat) \<le> 57"

fun strip_literal :: "string \<Rightarrow> string \<Rightarrow> string option" where
  "strip_literal [] s = Some s"
| "strip_literal (p # ps) [] = None"
| "strip_literal (p # ps) (c # cs) = (if p = c then strip_literal ps cs else None)"

definition match_here :: "string \<Rightarrow> (string \<times> string) option" where
  \<comment> \<open>the match that starts at the first byte of \<open>s\<close>: the matched text and group 1\<close>
  "match_here s =
     (case strip_literal ''OriginAS:'' s of
        None \<Rightarrow> None
      | Some r1 \<Rightarrow>
          (let ws = takeWhile re_space r1; r2 = dropWhile re_space r1 in
           if ws = [] then None
           else (case strip_literal ''AS'' r2 of
                   None \<Rightarrow> None
                 | Some r3 \<Rightarrow>
                     (let ds = takeWhile re_digit r3 in
                      if ds = [] then None
                      else Some (''OriginAS:'' @ ws @ ''AS'' @ ds, ds)))))"

fun FindStringSubmatch :: "string \<Rightarrow> string list" where
  "FindStringSubmatch [] = []"
| "FindStringSubmatch (c # cs) =
     (case match_here (c # cs) of
        None \<Rightarrow> FindStringSubmatch cs
      | Some (m, g) \<Rightarrow> [m, g])"

subsection \<open>strconv.Atoi and the \<open>%d\<close> verb\<close>

text \<open>
  \<open>strconv.Atoi\<close> reads an optional sign and decimal digits into an \<open>int\<close> of
  \<open>intSize\<close> bits (32 or 64, by platform). It scans from the left and fails with a
  syntax error at the first byte that is no digit, and with a range error as soon as
  the value read so far no longer fits the unsigned type, or when the whole value does
  not fit the signed type.
\<close>

datatype NumError = ErrSyntax | ErrRange

fun parse_digits :: "nat \<Rightarrow> nat \<Rightarrow> string \<Rightarrow> NumError + nat" where
  "parse_digits maxVal n [] = Inr n"
| "parse_digits maxVal n (c # cs) =
     (if \<not> re_digit c then Inl ErrSyntax
      else (let n1 = 10 * n + (of_char c - 48) in
            if n1 > maxVal then Inl ErrRange else parse_digits maxVal n1 cs))"

definition Atoi :: "nat \<Rightarrow> string \<Rightarrow> NumError + int" where
  "Atoi intSize s =
     (let neg = (s \<noteq> [] \<and> hd s = CHR ''-'');
          ds = (if s \<noteq> [] \<and> (hd s = CHR ''-'' \<or> hd s = CHR ''+'') then tl s else s)
      in if ds = [] then Inl ErrSyntax
         else (case parse_digits (2 ^ intSize - 1) 0 ds of
                 Inl e \<Rightarrow> Inl e
               | Inr un \<Rightarrow>
                   if \<not> neg \<and> un \<ge> 2 ^ (intSize - 1) then Inl ErrRange
                   else if neg \<and> un > 2 ^ (intSize - 1) then Inl ErrRange
                   else Inr (if neg then - int un else int un)))"

definition digit_char :: "nat \<Rightarrow> char" where
  "digit_char d = ''0123456789'' ! d"

fun nat_digits :: "nat \<Rightarrow> string" where
  "nat_digits n =
     (if n < 10 then [digit_char n]
      else nat_digits (n div 10) @ [digit_char (n mod 10)])"

declare nat_digits.simps [simp del]

definition Itoa :: "int \<Rightarrow> string" where
  \<comment> \<open>what \<open>fmt.Sprintf("%d", i)\<close> prints\<close>
  "Itoa i = (if i < 0 then CHR ''-'' # nat_digits (nat (- i)) else nat_digits (nat i))"

section \<open>The data of main.go\<close>

record Prefix =
  Prefix :: string
  Count :: int
  Total :: int

record PrefixForFile =
  Hostname :: string
  IP :: string

text \<open>
  A Go slice is either nil or a sequence of elements; \<open>encoding/json\<close> tells the two
  apart, so the accumulator \<open>results\<close> keeps the difference: \<open>None\<close> is the nil slice.
  \<open>append\<close> to a nil slice gives a slice that is not nil.
\<close>

type_synonym 'a slice = "'a list option"

definition elems :: "'a slice \<Rightarrow> 'a list" where
  "elems sl = (case sl of None \<Rightarrow> [] | Some xs \<Rightarrow> xs)"

definition append_slice :: "'a slice \<Rightarrow> 'a \<Rightarrow> 'a slice" where
  "append_slice sl x = Some (elems sl @ [x])"

text \<open>
  The errors the functions build with \<open>fmt.Errorf\<close>, one constructor for each place;
  the argument is the message of the wrapped error. \<open>AtoiError\<close> is the error that
  \<open>strconv.Atoi\<close> returns, handed on unchanged by \<open>getASNumberByWhois\<close>.
\<close>

datatype error =
    FailedToReadFile string
  | FailedToRunDig string
  | FailedToRunWhois string
  | ASNumberNotFound
  | AtoiError string NumError
  | FailedToGET string string
  | Non200Response string
  | FailedToReadBody string
  | FailedToParseJSON string
  | FailedToWriteFile string

text \<open>The lines the program prints, one constructor for each \<open>Println\<close>/\<open>Printf\<close>.\<close>

datatype line =
    ErrorGettingExecutablePath string
  | ErrorReadingDomains error
  | ProcessingDomain string
  | ErrorGettingIPs string error
  | NoIPsFound string
  | ErrorGettingASNumber string error
  | ASNumberForDomain string string int
  | ErrorGettingIPPrefixes int string error
  | ErrorSavingPrefixes error
  | PrefixesSaved string

text \<open>What the program does to the world, in the order it does it.\<close>

datatype event =
    Executable
  | ReadFile string
  | Exec string "string list"
  | Get string
  | WriteFile string string
  | Print line

record Response =
  StatusCode :: int
  Status :: string
  Body :: "string + string"

text \<open>
  The world outside the program: the operating system, the two external commands and
  the HTTP server answer through the functions of \<open>env\<close>, each from the state \<open>'w\<close> of
  the world to an answer and the next state, so that an answer may depend on everything
  that happened before. A failure is \<open>Inl\<close> with the message of the Go error.
  \<open>exec_Run name args\<close> is \<open>exec.Command(name, args...).Run()\<close> with the standard
  output collected: \<open>Inr\<close> holds what the command printed. The body of a response is
  \<open>Inl\<close> when reading it fails. \<open>json_Unmarshal\<close> is \<open>json.Unmarshal\<close> into an
  \<open>ApiResponse\<close>, giving its field \<open>Prefixes\<close>; \<open>json_string\<close> is the JSON string
  literal that \<open>encoding/json\<close> writes for a Go string; \<open>filepath_Dir\<close> and
  \<open>filepath_Join\<close> are the functions of \<open>path/filepath\<close>; \<open>intSize\<close> is the width of
  \<open>int\<close>.
\<close>

record 'w env =
  intSize :: nat
  os_Executable :: "'w \<Rightarrow> (string + string) \<times> 'w"
  filepath_Dir :: "string \<Rightarrow> string"
  filepath_Join :: "string \<Rightarrow> string \<Rightarrow> string"
  ioutil_ReadFile :: "string \<Rightarrow> 'w \<Rightarrow> (string + string) \<times> 'w"
  ioutil_WriteFile :: "string \<Rightarrow> string \<Rightarrow> 'w \<Rightarrow> string option \<times> 'w"
  exec_Run :: "string \<Rightarrow> string list \<Rightarrow> 'w \<Rightarrow> (string + string) \<times> 'w"
  http_Get :: "string \<Rightarrow> 'w \<Rightarrow> (string + Response) \<times> 'w"
  json_Unmarshal :: "string \<Rightarrow> string + Prefix list"
  json_string :: "string \<Rightarrow> string"

text \<open>The state of a run: the world, and the events so far (oldest first).\<close>

type_synonym 'w state = "'w \<times> event list"

definition trace :: "'w state \<Rightarrow> event list" where
  "trace s = snd s"

definition print :: "line \<Rightarrow> 'w state \<Rightarrow> 'w state" where
  "print l s = (fst s, snd s @ [Print l])"

definition call :: "event \<Rightarrow> ('w \<Rightarrow> 'a \<times> 'w) \<Rightarrow> 'w state \<Rightarrow> 'a \<times> 'w state" where
  \<comment> \<open>one call into the world, recorded in the trace\<close>
  "call e f s = (case f (fst s) of (r, w') \<Rightarrow> (r, (w', snd s @ [e])))"

section \<open>The functions of main.go\<close>

definition readDomainsFromFile ::
  "'w env \<Rightarrow> string \<Rightarrow> 'w state \<Rightarrow> (error + string list) \<times> 'w state" where
  "readDomainsFromFile env filename s =
     (case call (ReadFile filename) (ioutil_ReadFile env filename) s of
        (Inl err, s') \<Rightarrow> (Inl (FailedToReadFile err), s')
      | (Inr data, s') \<Rightarrow> (Inr (Split (TrimSpace data) newline), s'))"

definition getIPsByDig ::
  "'w env \<Rightarrow> string \<Rightarrow> 'w state \<Rightarrow> (error + string list) \<times> 'w state" where
  "getIPsByDig env domain s =
     (case call (Exec ''dig'' [''+short'', domain])
                (exec_Run env ''dig'' [''+short'', domain]) s of
        (Inl err, s') \<Rightarrow> (Inl (FailedToRunDig err), s')
      | (Inr out, s') \<Rightarrow> (Inr (Split (TrimSpace out) newline), s'))"

definition parseASNumber :: "nat \<Rightarrow> string \<Rightarrow> error + int" where
  \<comment> \<open>lines 73 to 80 of \<open>getASNumberByWhois\<close>: from the text of the answer to the AS number\<close>
  "parseASNumber bits out =
     (let match = FindStringSubmatch out in
      if length match < 2 then Inl ASNumberNotFound
      else (let asNumber = match ! 1 in
            case Atoi bits asNumber of
              Inl e \<Rightarrow> Inl (AtoiError asNumber e)
            | Inr n \<Rightarrow> Inr n))"

definition getASNumberByWhois ::
  "'w env \<Rightarrow> string \<Rightarrow> 'w state \<Rightarrow> (error + int) \<times> 'w state" where
  "getASNumberByWhois env ip s =
     (case call (Exec ''whois'' [ip]) (exec_Run env ''whois'' [ip]) s of
        (Inl err, s') \<Rightarrow> (Inl (FailedToRunWhois err), s')
      | (Inr out, s') \<Rightarrow> (parseASNumber (intSize env) out, s'))"

definition prefixes_url :: "int \<Rightarrow> string" where
  "prefixes_url asNumber =
     ''https://bgp.he.net/super-lg/report/api/v1/prefixes/originated/'' @ Itoa asNumber"

definition getIPPrefixes ::
  "'w env \<Rightarrow> int \<Rightarrow> 'w state \<Rightarrow> (error + Prefix list) \<times> 'w state" where
  "getIPPrefixes env asNumber s =
     (let url = prefixes_url asNumber in
      case call (Get url) (http_Get env url) s of
        (Inl err, s') \<Rightarrow> (Inl (FailedToGET url err), s')
      | (Inr resp, s') \<Rightarrow>
          if StatusCode resp \<noteq> 200 then (Inl (Non200Response (Status resp)), s')
          else (case Body resp of
                  Inl err \<Rightarrow> (Inl (FailedToReadBody err), s')
                | Inr body \<Rightarrow>
                    (case json_Unmarshal env body of
                       Inl err \<Rightarrow> (Inl (FailedToParseJSON err), s')
                     | Inr prefixes \<Rightarrow> (Inr prefixes, s'))))"

subsection \<open>json.MarshalIndent of the accumulator\<close>

text \<open>
  \<open>json.MarshalIndent(data, "", "    ")\<close> for a value of type \<open>[]PrefixForFile\<close>: a nil
  slice is written as \<open>null\<close>, a slice without elements as \<open>[]\<close>, and any other slice
  as an array with one object for each element, in order, indented by four spaces for
  each level. Marshalling two string fields cannot fail.
\<close>

definition indent_object :: "(string \<Rightarrow> string) \<Rightarrow> PrefixForFile \<Rightarrow> string" where
  "indent_object q r =
     ''    {'' @ [newline] @
     ''        '' @ q ''hostname'' @ '': '' @ q (Hostname r) @ '','' @ [newline] @
     ''        '' @ q ''ip'' @ '': '' @ q (IP r) @ [newline] @
     ''    }''"

fun join_lines :: "string list \<Rightarrow> string" where
  "join_lines [] = []"
| "join_lines [x] = x"
| "join_lines (x # y # ys) = x @ '','' @ [newline] @ join_lines (y # ys)"

definition MarshalIndent :: "(string \<Rightarrow> string) \<Rightarrow> PrefixForFile slice \<Rightarrow> string" where
  "MarshalIndent q data =
     (case data of
        None \<Rightarrow> ''null''
      | Some [] \<Rightarrow> ''[]''
      | Some (x # xs) \<Rightarrow>
          ''['' @ [newline] @ join_lines (map (indent_object q) (x # xs)) @ [newline] @ '']'')"

definition savePrefixesToFile ::
  "'w env \<Rightarrow> PrefixForFile slice \<Rightarrow> string \<Rightarrow> 'w state \<Rightarrow> error option \<times> 'w state" where
  "savePrefixesToFile env data filename s =
     (let jsonData = MarshalIndent (json_string env) data in
      case call (WriteFile filename jsonData) (ioutil_WriteFile env filename jsonData) s of
        (Some err, s') \<Rightarrow> (Some (FailedToWriteFile err), s')
      | (None, s') \<Rightarrow> (None, s'))"

subsection \<open>The loop of main\<close>

text \<open>
  One pass of the loop over the domains (lines 150 to 184), in two parts: up to the
  answer of \<open>getIPsByDig\<close>, and from the test \<open>len(ips) == 0\<close> on. A \<open>continue\<close> ends
  the pass with the accumulator as it is.
\<close>

definition resolve_ips ::
  "'w env \<Rightarrow> string \<Rightarrow> string list \<Rightarrow> 'w state \<times> PrefixForFile slice \<Rightarrow>
   'w state \<times> PrefixForFile slice" where
  "resolve_ips env domain ips acc =
     (case acc of (s, results) \<Rightarrow>
        if length ips = 0 then (print (NoIPsFound domain) s, results)
        else (case getASNumberByWhois env (ips ! 0) s of
                (Inl err, s1) \<Rightarrow> (print (ErrorGettingASNumber domain err) s1, results)
              | (Inr asNumber, s1) \<Rightarrow>
                  (case getIPPrefixes env asNumber
                          (print (ASNumberForDomain domain (ips ! 0) asNumber) s1) of
                     (Inl err, s2) \<Rightarrow>
                       (print (ErrorGettingIPPrefixes asNumber domain err) s2, results)
                   | (Inr prefixes, s2) \<Rightarrow>
                       (s2, foldl (\<lambda>res prefix.
                                     append_slice res \<lparr>Hostname = Prefix prefix, IP = []\<rparr>)
                                  results prefixes))))"

definition process_domain ::
  "'w env \<Rightarrow> 'w state \<times> PrefixForFile slice \<Rightarrow> string \<Rightarrow> 'w state \<times> PrefixForFile slice" where
  "process_domain env acc domain =
     (case acc of (s, results) \<Rightarrow>
        (case getIPsByDig env domain (print (ProcessingDomain domain) s) of
           (Inl err, s1) \<Rightarrow> (print (ErrorGettingIPs domain err) s1, results)
         | (Inr ips, s1) \<Rightarrow> resolve_ips env domain ips (s1, results)))"

definition process_domains ::
  "'w env \<Rightarrow> string list \<Rightarrow> 'w state \<times> PrefixForFile slice \<Rightarrow>
   'w state \<times> PrefixForFile slice" where
  "process_domains env domains acc = foldl (process_domain env) acc domains"

definition main :: "'w env \<Rightarrow> 'w state \<Rightarrow> 'w state" where
  "main env s =
     (case call Executable (os_Executable env) s of
        (Inl err, s1) \<Rightarrow> print (ErrorGettingExecutablePath err) s1
      | (Inr exePath, s1) \<Rightarrow>
          (let exeDir = filepath_Dir env exePath;
               domainsFilePath = filepath_Join env exeDir ''domains.txt'' in
           case readDomainsFromFile env domainsFilePath s1 of
             (Inl err, s2) \<Rightarrow> print (ErrorReadingDomains err) s2
           | (Inr domains, s2) \<Rightarrow>
               (case process_domains env domains (s2, None) of
                  (s3, results) \<Rightarrow>
                    (let outputFilePath = filepath_Join env exeDir ''prefix.json'' in
                     case savePrefixesToFile env results outputFilePath s3 of
                       (Some err, s4) \<Rightarrow> print (ErrorSavingPrefixes err) s4
                     | (None, s4) \<Rightarrow> print (PrefixesSaved outputFilePath) s4))))"

section \<open>Notions used to state the properties\<close>

text \<open>The events that a state \<open>s'\<close> reached from \<open>s\<close> has added to the trace of \<open>s\<close>.\<close>

definition new_events :: "'w state \<Rightarrow> 'w state \<Rightarrow> event list" where
  "new_events s s' = drop (length (trace s)) (trace s')"

definition is_whois :: "event \<Rightarrow> bool" where
  "is_whois e = (case e of Exec name args \<Rightarrow> name = ''whois'' | _ \<Rightarrow> False)"

definition is_processing :: "event \<Rightarrow> bool" where
  "is_processing e = (case e of Print (ProcessingDomain d) \<Rightarrow> True | _ \<Rightarrow> False)"

text \<open>
  The loop going on from one domain to the next: the state and the accumulator after
  the passes of the first \<open>k\<close> domains of the list. The pass of a domain starts where the
  pass of the domain before it ended, however that one ended.
\<close>

fun after_passes ::
  "'w env \<Rightarrow> string list \<Rightarrow> 'w state \<times> PrefixForFile slice \<Rightarrow> nat \<Rightarrow>
   'w state \<times> PrefixForFile slice" where
  "after_passes env domains acc 0 = acc"
| "after_passes env domains acc (Suc k) =
     process_domain env (after_passes env domains acc k) (domains ! k)"

text \<open>
  The pattern of the specification, read on the text of a registry answer: at offset
  \<open>i\<close> of \<open>s\<close> stands \<open>OriginAS:\<close>, white space, \<open>AS\<close> and the digits \<open>ds\<close>, and no
  further digit follows them.
\<close>

definition occurs_at :: "string \<Rightarrow> nat \<Rightarrow> string \<Rightarrow> bool" where
  "occurs_at s i ds \<longleftrightarrow>
     (\<exists>ws rest. drop i s = ''OriginAS:'' @ ws @ ''AS'' @ ds @ rest \<and>
        ws \<noteq> [] \<and> (\<forall>c\<in>set ws. re_space c) \<and>
        ds \<noteq> [] \<and> (\<forall>c\<in>set ds. re_digit c) \<and>
        (rest = [] \<or> \<not> re_digit (hd rest)))"

text \<open>The number that a string of decimal digits writes.\<close>

fun digits_value :: "nat \<Rightarrow> string \<Rightarrow> nat" where
  "digits_value n [] = n"
| "digits_value n (c # cs) = digits_value (10 * n + (of_char c - 48)) cs"

definition decimal :: "string \<Rightarrow> nat" where
  "decimal ds = digits_value 0 ds"

section \<open>An example world\<close>

text \<open>
  A world in which the properties are exercised: its state counts the calls made so
  far. \<open>example.com\<close> resolves to two addresses, the registry knows the first as
  AS15133 and the API returns three prefixes for it; \<open>nodns.example\<close> makes dig fail;
  \<open>silent.example\<close> makes dig print nothing; \<open>noorigin.example\<close> resolves to an address
  for which the registry answer has no origin line; \<open>http503.example\<close> resolves to an
  address whose registry answer names AS64500 and then AS64501; for AS64500 the API
  answers 503. For the addresses 203.0.113.9 and 203.0.113.10 the registry answers
  with the origin lines \<open>AS99999999999999999999\<close> and \<open>AS0\<close>.
\<close>

definition example_dig :: "string \<Rightarrow> string + string" where
  "example_dig domain =
     (if domain = ''example.com''
        then Inr (''93.184.216.34'' @ [newline] @ ''93.184.216.35'' @ [newline])
      else if domain = ''silent.example'' then Inr []
      else if domain = ''noorigin.example'' then Inr (''192.0.2.1'' @ [newline])
      else if domain = ''http503.example'' then Inr (''192.0.2.7'' @ [newline])
      else Inl ''exit status 9'')"

definition example_whois :: "string \<Rightarrow> string + string" where
  "example_whois ip =
     (if ip = ''93.184.216.34''
        then Inr (''NetName: EDGECAST'' @ [newline] @ ''OriginAS:       AS15133'' @ [newline])
      else if ip = ''192.0.2.1'' then Inr (''NetName: TEST-NET-1'' @ [newline])
      else if ip = ''192.0.2.7''
        then Inr (''OriginAS: AS64500'' @ [newline] @ ''OriginAS: AS64501'' @ [newline])
      else if ip = ''203.0.113.9'' then Inr (''OriginAS: AS99999999999999999999'' @ [newline])
      else if ip = ''203.0.113.10'' then Inr (''OriginAS: AS0'' @ [newline])
      else Inl ''exit status 1'')"

definition example_get :: "string \<Rightarrow> string + Response" where
  "example_get url =
     (if url = prefixes_url 15133
        then Inr \<lparr>StatusCode = 200, Status = ''200 OK'', Body = Inr ''prefixes of AS15133''\<rparr>
      else if url = prefixes_url 64500
        then Inr \<lparr>StatusCode = 503, Status = ''503 Service Unavailable'', Body = Inr []\<rparr>
      else Inl ''dial tcp: i/o timeout'')"

definition example_unmarshal :: "string \<Rightarrow> string + Prefix list" where
  "example_unmarshal body =
     (if body = ''prefixes of AS15133''
        then Inr [\<lparr>Prefix = ''93.184.216.0/24'', Count = 1, Total = 3\<rparr>,
                  \<lparr>Prefix = ''93.184.215.0/24'', Count = 1, Total = 3\<rparr>,
                  \<lparr>Prefix = ''192.229.128.0/17'', Count = 1, Total = 3\<rparr>]
      else Inl ''unexpected end of JSON input'')"

definition example_env :: "string \<Rightarrow> nat env" where
  \<comment> \<open>the argument is the content of \<open>domains.txt\<close>\<close>
  "example_env domains_txt =
     \<lparr>intSize = 64,
      os_Executable = (\<lambda>w. (Inr ''/opt/tool/main'', Suc w)),
      filepath_Dir = (\<lambda>path. ''/opt/tool''),
      filepath_Join = (\<lambda>dir name. dir @ ''/'' @ name),
      ioutil_ReadFile = (\<lambda>name w. (Inr domains_txt, Suc w)),
      ioutil_WriteFile = (\<lambda>name data w. (None, Suc w)),
      exec_Run = (\<lambda>name args w.
         (if name = ''dig'' then example_dig (last args) else example_whois (last args), Suc w)),
      http_Get = (\<lambda>url w. (example_get url, Suc w)),
      json_Unmarshal = example_unmarshal,
      json_string = (\<lambda>s. CHR 0x22 # s @ [CHR 0x22])\<rparr>"

section \<open>Facts about the library functions\<close>

lemma Split_not_Nil: "Split s sep \<noteq> []"
  by (induction s) (auto split: list.splits)

lemma length_Split: "Suc 0 \<le> length (Split s sep)"
  using Split_not_Nil [of s sep] by (cases "Split s sep") simp_all

lemma TrimSpace_Nil: "TrimSpace [] = []"
  by (simp add: TrimSpace_def)

section \<open>Facts about the stages\<close>

lemma getIPsByDig_cases:
  "getIPsByDig env domain s =
     (case exec_Run env ''dig'' [''+short'', domain] (fst s) of
        (Inl err, w') \<Rightarrow>
          (Inl (FailedToRunDig err), (w', snd s @ [Exec ''dig'' [''+short'', domain]]))
      | (Inr out, w') \<Rightarrow>
          (Inr (Split (TrimSpace out) newline), (w', snd s @ [Exec ''dig'' [''+short'', domain]])))"
  by (simp add: getIPsByDig_def call_def split: prod.splits sum.splits)

lemma getIPsByDig_not_Nil: "getIPsByDig env domain s = (Inr ips, s') \<Longrightarrow> ips \<noteq> []"
  by (auto simp: getIPsByDig_cases Split_not_Nil split: prod.splits sum.splits)

lemma trace_print: "trace (print l s) = trace s @ [Print l]"
  by (simp add: trace_def print_def)

lemma trace_getIPsByDig:
  "getIPsByDig env domain s = (r, s') \<Longrightarrow>
   trace s' = trace s @ [Exec ''dig'' [''+short'', domain]]"
  by (auto simp: getIPsByDig_cases trace_def split: prod.splits sum.splits)

lemma trace_getASNumberByWhois:
  "getASNumberByWhois env ip s = (r, s') \<Longrightarrow> trace s' = trace s @ [Exec ''whois'' [ip]]"
  by (auto simp: getASNumberByWhois_def call_def trace_def split: prod.splits sum.splits)

lemma trace_getIPPrefixes:
  "getIPPrefixes env asn s = (r, s') \<Longrightarrow> trace s' = trace s @ [Get (prefixes_url asn)]"
  by (auto simp: getIPPrefixes_def call_def trace_def Let_def
           split: prod.splits sum.splits if_splits)

lemma new_events_append: "trace s' = trace s @ evs \<Longrightarrow> new_events s s' = evs"
  by (simp add: new_events_def)

lemma trace_resolve_ips:
  assumes "ips \<noteq> []"
  shows "\<exists>evs. trace (fst (resolve_ips env domain ips (s, results))) =
                 trace s @ Exec ''whois'' [ips ! 0] # evs \<and>
               (\<forall>e\<in>set evs. \<not> is_whois e \<and> \<not> is_processing e \<and> e \<noteq> Print (NoIPsFound domain))"
proof -
  obtain r s1 where w: "getASNumberByWhois env (ips ! 0) s = (r, s1)"
    by (cases "getASNumberByWhois env (ips ! 0) s") blast
  note t1 = trace_getASNumberByWhois [OF w]
  show ?thesis
  proof (cases r)
    case (Inl err)
    with w t1 assms show ?thesis
      by (simp add: resolve_ips_def trace_print is_whois_def is_processing_def)
  next
    case (Inr asNumber)
    obtain r2 s2 where p: "getIPPrefixes env asNumber
        (print (ASNumberForDomain domain (ips ! 0) asNumber) s1) = (r2, s2)"
      by (cases "getIPPrefixes env asNumber
        (print (ASNumberForDomain domain (ips ! 0) asNumber) s1)") blast
    note t2 = trace_getIPPrefixes [OF p]
    from w Inr p t1 t2 assms show ?thesis
      by (cases r2) (simp_all add: resolve_ips_def trace_print is_whois_def is_processing_def)
  qed
qed

section \<open>An empty answer of dig\<close>

text \<open>
  C9. Whatever dig prints, a successful \<open>getIPsByDig\<close> returns at least one string:
  \<open>strings.Split\<close> never returns an empty slice. When dig prints nothing the result is
  the one-element slice holding the empty string. So the pass never takes the branch
  \<open>len(ips) == 0\<close> (the line "No IPs found" is not printed) and goes on to call whois
  with \<open>ips[0]\<close>, which is the empty string when dig printed nothing.
\<close>

theorem getIPsByDig_at_least_one:
  assumes "getIPsByDig env domain s = (Inr ips, s')"
  shows "1 \<le> length ips \<and>
         (\<forall>w'. exec_Run env ''dig'' [''+short'', domain] (fst s) = (Inr [], w') \<longrightarrow> ips = [[]]) \<and>
         (\<forall>results. \<exists>evs.
            new_events s' (fst (resolve_ips env domain ips (s', results))) =
              Exec ''whois'' [ips ! 0] # evs \<and>
            Print (NoIPsFound domain) \<notin> set evs)"
proof (intro conjI allI impI)
  have ne: "ips \<noteq> []" using assms by (rule getIPsByDig_not_Nil)
  then show "1 \<le> length ips" by (cases ips) simp_all
  show "ips = [[]]" if "exec_Run env ''dig'' [''+short'', domain] (fst s) = (Inr [], w')" for w'
    using assms that by (simp add: getIPsByDig_cases TrimSpace_Nil)
  show "\<exists>evs. new_events s' (fst (resolve_ips env domain ips (s', results))) =
              Exec ''whois'' [ips ! 0] # evs \<and> Print (NoIPsFound domain) \<notin> set evs" for results
  proof -
    from trace_resolve_ips [OF ne, of env domain s' results] obtain evs where
      t: "trace (fst (resolve_ips env domain ips (s', results))) =
            trace s' @ Exec ''whois'' [ips ! 0] # evs"
      and n: "\<forall>e\<in>set evs. \<not> is_whois e \<and> \<not> is_processing e \<and> e \<noteq> Print (NoIPsFound domain)"
      by blast
    from new_events_append [OF t] n show ?thesis by blast
  qed
qed

theorem getIPsByDig_at_least_one_witness:
  "getIPsByDig (example_env []) ''silent.example'' (0, []) =
     (Inr [[]], (Suc 0, [Exec ''dig'' [''+short'', ''silent.example'']])) \<and>
   1 \<le> length [[] :: string] \<and>
   (\<exists>evs. new_events (Suc 0, [Exec ''dig'' [''+short'', ''silent.example'']])
             (fst (resolve_ips (example_env []) ''silent.example'' [[]]
                    ((Suc 0, [Exec ''dig'' [''+short'', ''silent.example'']]), None))) =
           Exec ''whois'' [[]] # evs \<and>
         Print (NoIPsFound ''silent.example'') \<notin> set evs)"
proof -
  have h: "getIPsByDig (example_env []) ''silent.example'' (0, []) =
     (Inr [[]], (Suc 0, [Exec ''dig'' [''+short'', ''silent.example'']]))"
    by (simp add: getIPsByDig_def call_def example_env_def example_dig_def TrimSpace_def)
  from getIPsByDig_at_least_one [OF h] h show ?thesis by simp
qed

section \<open>Facts about one pass of the loop\<close>

lemma fst_print: "fst (print l s) = fst s"
  by (simp add: print_def)

lemma process_domain_resolved:
  "getIPsByDig env domain (print (ProcessingDomain domain) s) = (Inr ips, s1) \<Longrightarrow>
   process_domain env (s, results) domain = resolve_ips env domain ips (s1, results)"
  by (simp add: process_domain_def)

lemma resolve_ips_first_only:
  "ips \<noteq> [] \<Longrightarrow> resolve_ips env domain ips acc = resolve_ips env domain [ips ! 0] acc"
  by (simp add: resolve_ips_def split: prod.splits sum.splits)

lemma elems_foldl_append:
  "elems (foldl (\<lambda>res p. append_slice res (f p)) r ps) = elems r @ map f ps"
  by (induction ps arbitrary: r) (simp_all add: append_slice_def elems_def)

lemma getIPPrefixes_non200:
  "http_Get env (prefixes_url asn) (fst s) = (Inr resp, w') \<Longrightarrow> StatusCode resp \<noteq> 200 \<Longrightarrow>
   getIPPrefixes env asn s =
     (Inl (Non200Response (Status resp)), (w', snd s @ [Get (prefixes_url asn)]))"
  by (simp add: getIPPrefixes_def call_def Let_def)

lemma pass_fails_dig:
  "getIPsByDig env domain (print (ProcessingDomain domain) s) = (Inl err, s1) \<Longrightarrow>
   process_domain env (s, results) domain = (print (ErrorGettingIPs domain err) s1, results)"
  by (simp add: process_domain_def)

lemma pass_fails_whois:
  "getIPsByDig env domain (print (ProcessingDomain domain) s) = (Inr ips, s1) \<Longrightarrow>
   getASNumberByWhois env (ips ! 0) s1 = (Inl err, s2) \<Longrightarrow>
   process_domain env (s, results) domain =
     (print (ErrorGettingASNumber domain err) s2, results)"
  by (frule getIPsByDig_not_Nil) (simp add: process_domain_def resolve_ips_def)

lemma pass_fails_prefixes:
  "getIPsByDig env domain (print (ProcessingDomain domain) s) = (Inr ips, s1) \<Longrightarrow>
   getASNumberByWhois env (ips ! 0) s1 = (Inr asn, s2) \<Longrightarrow>
   getIPPrefixes env asn (print (ASNumberForDomain domain (ips ! 0) asn) s2) = (Inl err, s3) \<Longrightarrow>
   process_domain env (s, results) domain =
     (print (ErrorGettingIPPrefixes asn domain err) s3, results)"
  by (frule getIPsByDig_not_Nil) (simp add: process_domain_def resolve_ips_def)

lemma pass_succeeds:
  "getIPsByDig env domain (print (ProcessingDomain domain) s) = (Inr ips, s1) \<Longrightarrow>
   getASNumberByWhois env (ips ! 0) s1 = (Inr asn, s2) \<Longrightarrow>
   getIPPrefixes env asn (print (ASNumberForDomain domain (ips ! 0) asn) s2) = (Inr prefixes, s3) \<Longrightarrow>
   process_domain env (s, results) domain =
     (s3, foldl (\<lambda>res prefix. append_slice res \<lparr>Hostname = Prefix prefix, IP = []\<rparr>)
            results prefixes)"
  by (frule getIPsByDig_not_Nil) (simp add: process_domain_def resolve_ips_def)

lemma accumulator_changes_only_on_success:
  "snd (process_domain env (s, results) domain) \<noteq> results \<Longrightarrow>
   \<exists>ips s1 asn s2 prefixes s3.
     getIPsByDig env domain (print (ProcessingDomain domain) s) = (Inr ips, s1) \<and>
     getASNumberByWhois env (ips ! 0) s1 = (Inr asn, s2) \<and>
     getIPPrefixes env asn (print (ASNumberForDomain domain (ips ! 0) asn) s2) = (Inr prefixes, s3)"
  by (auto simp: process_domain_def resolve_ips_def split: prod.splits sum.splits if_splits)

section \<open>The example world, evaluated\<close>

lemma print_pair: "print l (w, tr) = (w, tr @ [Print l])"
  by (simp add: print_def)

lemma example_dig_com:
  "getIPsByDig (example_env txt) ''example.com'' (w, tr) =
     (Inr [''93.184.216.34'', ''93.184.216.35''],
      (Suc w, tr @ [Exec ''dig'' [''+short'', ''example.com'']]))"
  by (simp add: getIPsByDig_def call_def example_env_def example_dig_def TrimSpace_def
        space_width_def space_encodings_def newline_def)

lemma example_dig_503:
  "getIPsByDig (example_env txt) ''http503.example'' (w, tr) =
     (Inr [''192.0.2.7''], (Suc w, tr @ [Exec ''dig'' [''+short'', ''http503.example'']]))"
  by (simp add: getIPsByDig_def call_def example_env_def example_dig_def TrimSpace_def
        space_width_def space_encodings_def newline_def)

lemma example_dig_nodns:
  "getIPsByDig (example_env txt) ''nodns.example'' (w, tr) =
     (Inl (FailedToRunDig ''exit status 9''),
      (Suc w, tr @ [Exec ''dig'' [''+short'', ''nodns.example'']]))"
  by (simp add: getIPsByDig_def call_def example_env_def example_dig_def)

lemma example_whois_com:
  "getASNumberByWhois (example_env txt) ''93.184.216.34'' (w, tr) =
     (Inr 15133, (Suc w, tr @ [Exec ''whois'' [''93.184.216.34'']]))"
  by (simp add: getASNumberByWhois_def call_def example_env_def example_whois_def
        parseASNumber_def match_here_def re_space_def re_digit_def Atoi_def Let_def newline_def)

lemma example_whois_503:
  "getASNumberByWhois (example_env txt) ''192.0.2.7'' (w, tr) =
     (Inr 64500, (Suc w, tr @ [Exec ''whois'' [''192.0.2.7'']]))"
  by (simp add: getASNumberByWhois_def call_def example_env_def example_whois_def
        parseASNumber_def match_here_def re_space_def re_digit_def Atoi_def Let_def newline_def)

lemma example_urls:
  "prefixes_url 15133 = ''https://bgp.he.net/super-lg/report/api/v1/prefixes/originated/15133''"
  "prefixes_url 64500 = ''https://bgp.he.net/super-lg/report/api/v1/prefixes/originated/64500''"
  by (simp_all add: prefixes_url_def Itoa_def nat_digits.simps digit_char_def)

lemma example_get_503:
  "http_Get (example_env txt) (prefixes_url 64500) w =
     (Inr \<lparr>StatusCode = 503, Status = ''503 Service Unavailable'', Body = Inr []\<rparr>, Suc w)"
  by (simp add: example_env_def example_get_def example_urls)

lemma example_prefixes_com:
  "getIPPrefixes (example_env txt) 15133 (w, tr) =
     (Inr [\<lparr>Prefix = ''93.184.216.0/24'', Count = 1, Total = 3\<rparr>,
           \<lparr>Prefix = ''93.184.215.0/24'', Count = 1, Total = 3\<rparr>,
           \<lparr>Prefix = ''192.229.128.0/17'', Count = 1, Total = 3\<rparr>],
      (Suc w, tr @ [Get (prefixes_url 15133)]))"
  by (simp add: getIPPrefixes_def call_def example_env_def example_get_def example_unmarshal_def
        Let_def)

lemma example_prefixes_503:
  "getIPPrefixes (example_env txt) 64500 (w, tr) =
     (Inl (Non200Response ''503 Service Unavailable''),
      (Suc w, tr @ [Get (prefixes_url 64500)]))"
  by (simp add: getIPPrefixes_def call_def example_env_def example_get_def example_urls Let_def)

section \<open>Only the first address is used\<close>

text \<open>
  C7. When \<open>getIPsByDig\<close> succeeds for a domain (it then returns at least one string),
  the pass calls whois exactly once, with \<open>ips[0]\<close>; and the rest of the pass is the
  same for every other non-empty answer with the same first element, so the later
  addresses are not used.
\<close>

theorem whois_once_with_first_ip:
  assumes "getIPsByDig env domain (print (ProcessingDomain domain) s) = (Inr ips, s1)"
  shows "filter is_whois (new_events s (fst (process_domain env (s, results) domain))) =
           [Exec ''whois'' [ips ! 0]] \<and>
         (\<forall>ips'. ips' \<noteq> [] \<and> ips' ! 0 = ips ! 0 \<longrightarrow>
            resolve_ips env domain ips' (s1, results) =
              process_domain env (s, results) domain)"
proof
  have ne: "ips \<noteq> []" using assms by (rule getIPsByDig_not_Nil)
  have p: "process_domain env (s, results) domain = resolve_ips env domain ips (s1, results)"
    using assms by (rule process_domain_resolved)
  have t1: "trace s1 =
      trace s @ [Print (ProcessingDomain domain), Exec ''dig'' [''+short'', domain]]"
    using trace_getIPsByDig [OF assms] by (simp add: trace_print)
  from trace_resolve_ips [OF ne, of env domain s1 results] obtain evs where
    t: "trace (fst (resolve_ips env domain ips (s1, results))) =
          trace s1 @ Exec ''whois'' [ips ! 0] # evs"
    and n: "\<forall>e\<in>set evs. \<not> is_whois e \<and> \<not> is_processing e \<and> e \<noteq> Print (NoIPsFound domain)"
    by blast
  have "trace (fst (process_domain env (s, results) domain)) =
      trace s @ ([Print (ProcessingDomain domain), Exec ''dig'' [''+short'', domain],
                  Exec ''whois'' [ips ! 0]] @ evs)"
    using p t t1 by simp
  then have "new_events s (fst (process_domain env (s, results) domain)) =
      [Print (ProcessingDomain domain), Exec ''dig'' [''+short'', domain],
       Exec ''whois'' [ips ! 0]] @ evs"
    by (rule new_events_append)
  moreover have "filter is_whois evs = []" using n by (simp add: filter_empty_conv)
  ultimately show "filter is_whois (new_events s (fst (process_domain env (s, results) domain))) =
      [Exec ''whois'' [ips ! 0]]"
    by (simp add: is_whois_def)
  show "\<forall>ips'. ips' \<noteq> [] \<and> ips' ! 0 = ips ! 0 \<longrightarrow>
          resolve_ips env domain ips' (s1, results) = process_domain env (s, results) domain"
  proof (intro allI impI)
    fix ips' :: "string list"
    assume a: "ips' \<noteq> [] \<and> ips' ! 0 = ips ! 0"
    have "resolve_ips env domain ips' (s1, results) =
        resolve_ips env domain [ips ! 0] (s1, results)"
      using resolve_ips_first_only [of ips' env domain "(s1, results)"] a by simp
    also have "\<dots> = resolve_ips env domain ips (s1, results)"
      using resolve_ips_first_only [OF ne, of env domain "(s1, results)"] by simp
    finally show "resolve_ips env domain ips' (s1, results) =
        process_domain env (s, results) domain"
      using p by simp
  qed
qed

theorem whois_once_with_first_ip_witness:
  "getIPsByDig (example_env []) ''example.com'' (print (ProcessingDomain ''example.com'') (0, [])) =
     (Inr [''93.184.216.34'', ''93.184.216.35''],
      (Suc 0, [Print (ProcessingDomain ''example.com''),
               Exec ''dig'' [''+short'', ''example.com'']])) \<and>
   filter is_whois
     (new_events (0, []) (fst (process_domain (example_env []) ((0, []), None) ''example.com''))) =
     [Exec ''whois'' [''93.184.216.34'']]"
proof -
  have h: "getIPsByDig (example_env []) ''example.com''
      (print (ProcessingDomain ''example.com'') (0, [])) =
     (Inr [''93.184.216.34'', ''93.184.216.35''],
      (Suc 0, [Print (ProcessingDomain ''example.com''),
               Exec ''dig'' [''+short'', ''example.com'']]))"
    by (simp add: print_pair example_dig_com)
  from whois_once_with_first_ip [OF h, of None] h show ?thesis by simp
qed

section \<open>The records of a successful pass\<close>

lemma getIPPrefixes_ok:
  "http_Get env (prefixes_url asn) (fst s) = (Inr resp, w') \<Longrightarrow> StatusCode resp = 200 \<Longrightarrow>
   Body resp = Inr body \<Longrightarrow> json_Unmarshal env body = Inr prefixes \<Longrightarrow>
   getIPPrefixes env asn s = (Inr prefixes, (w', snd s @ [Get (prefixes_url asn)]))"
  by (simp add: getIPPrefixes_def call_def Let_def)

lemma getIPPrefixes_Inr_iff:
  "getIPPrefixes env asn s = (Inr prefixes, s') \<longleftrightarrow>
     (\<exists>resp w' body.
        http_Get env (prefixes_url asn) (fst s) = (Inr resp, w') \<and> StatusCode resp = 200 \<and>
        Body resp = Inr body \<and> json_Unmarshal env body = Inr prefixes \<and>
        s' = (w', snd s @ [Get (prefixes_url asn)]))"
  by (auto simp: getIPPrefixes_def call_def Let_def split: prod.splits sum.splits if_splits)

text \<open>
  C5. When dig and the origin lookup of a pass succeed and the API answers the request
  for the AS number with status 200 and a body that \<open>json.Unmarshal\<close> decodes to
  \<open>prefixes\<close>, then \<open>getIPPrefixes\<close> returns exactly these prefixes, and the
  accumulator after the pass is the accumulator before it followed by one record for
  each of them, in order: as many records as the API returned prefixes, each with
  \<open>hostname\<close> the prefix string itself and \<open>ip\<close> the empty string.
\<close>

theorem one_record_for_each_prefix:
  assumes "getIPsByDig env domain (print (ProcessingDomain domain) s) = (Inr ips, s1)"
    and "getASNumberByWhois env (ips ! 0) s1 = (Inr asn, s2)"
    and "http_Get env (prefixes_url asn) (fst s2) = (Inr resp, w3)"
    and "StatusCode resp = 200"
    and "Body resp = Inr body"
    and "json_Unmarshal env body = Inr prefixes"
  shows "fst (getIPPrefixes env asn (print (ASNumberForDomain domain (ips ! 0) asn) s2)) =
           Inr prefixes \<and>
         elems (snd (process_domain env (s, results) domain)) =
           elems results @ map (\<lambda>p. \<lparr>Hostname = Prefix p, IP = []\<rparr>) prefixes \<and>
         length (elems (snd (process_domain env (s, results) domain))) =
           length (elems results) + length prefixes \<and>
         (\<forall>i<length prefixes.
            Hostname (elems (snd (process_domain env (s, results) domain)) !
                        (length (elems results) + i)) = Prefix (prefixes ! i) \<and>
            IP (elems (snd (process_domain env (s, results) domain)) !
                  (length (elems results) + i)) = [])"
proof -
  let ?s2 = "print (ASNumberForDomain domain (ips ! 0) asn) s2"
  have "http_Get env (prefixes_url asn) (fst ?s2) = (Inr resp, w3)"
    using assms(3) by (simp add: fst_print)
  from getIPPrefixes_ok [OF this assms(4,5,6)]
  have g: "getIPPrefixes env asn ?s2 = (Inr prefixes, (w3, snd ?s2 @ [Get (prefixes_url asn)]))" .
  have e: "elems (snd (process_domain env (s, results) domain)) =
      elems results @ map (\<lambda>p. \<lparr>Hostname = Prefix p, IP = []\<rparr>) prefixes"
    using pass_succeeds [OF assms(1,2) g, of results] by (simp add: elems_foldl_append)
  show ?thesis unfolding e using g by (simp add: nth_append)
qed

theorem one_record_for_each_prefix_witness:
  "getIPsByDig (example_env []) ''example.com'' (print (ProcessingDomain ''example.com'') (0, [])) =
     (Inr [''93.184.216.34'', ''93.184.216.35''],
      (1, [Print (ProcessingDomain ''example.com''),
           Exec ''dig'' [''+short'', ''example.com'']])) \<and>
   http_Get (example_env []) (prefixes_url 15133) 2 =
     (Inr \<lparr>StatusCode = 200, Status = ''200 OK'', Body = Inr ''prefixes of AS15133''\<rparr>, 3) \<and>
   json_Unmarshal (example_env []) ''prefixes of AS15133'' =
     Inr [\<lparr>Prefix = ''93.184.216.0/24'', Count = 1, Total = 3\<rparr>,
          \<lparr>Prefix = ''93.184.215.0/24'', Count = 1, Total = 3\<rparr>,
          \<lparr>Prefix = ''192.229.128.0/17'', Count = 1, Total = 3\<rparr>] \<and>
   elems (snd (process_domain (example_env [])
                 ((0, []), Some [\<lparr>Hostname = ''198.51.100.0/24'', IP = []\<rparr>]) ''example.com'')) =
     [\<lparr>Hostname = ''198.51.100.0/24'', IP = []\<rparr>,
      \<lparr>Hostname = ''93.184.216.0/24'', IP = []\<rparr>,
      \<lparr>Hostname = ''93.184.215.0/24'', IP = []\<rparr>,
      \<lparr>Hostname = ''192.229.128.0/17'', IP = []\<rparr>]"
proof -
  have h1: "getIPsByDig (example_env []) ''example.com''
      (print (ProcessingDomain ''example.com'') (0, [])) =
     (Inr [''93.184.216.34'', ''93.184.216.35''],
      (1, [Print (ProcessingDomain ''example.com''),
           Exec ''dig'' [''+short'', ''example.com'']]))"
    by (simp add: print_pair example_dig_com)
  have h2: "getASNumberByWhois (example_env []) ([''93.184.216.34'', ''93.184.216.35''] ! 0)
      (1, [Print (ProcessingDomain ''example.com''),
           Exec ''dig'' [''+short'', ''example.com'']]) =
     (Inr 15133, (2, [Print (ProcessingDomain ''example.com''),
           Exec ''dig'' [''+short'', ''example.com''], Exec ''whois'' [''93.184.216.34'']]))"
    by (simp add: example_whois_com)
  have h3: "http_Get (example_env []) (prefixes_url 15133)
      (fst (2::nat, [Print (ProcessingDomain ''example.com''),
           Exec ''dig'' [''+short'', ''example.com''], Exec ''whois'' [''93.184.216.34'']])) =
     (Inr \<lparr>StatusCode = 200, Status = ''200 OK'', Body = Inr ''prefixes of AS15133''\<rparr>, 3)"
    by (simp add: example_env_def example_get_def)
  have h4: "StatusCode \<lparr>StatusCode = 200, Status = ''200 OK'',
      Body = Inr ''prefixes of AS15133''\<rparr> = 200"
    by simp
  have h5: "Body \<lparr>StatusCode = 200, Status = ''200 OK'',
      Body = Inr ''prefixes of AS15133''\<rparr> = Inr ''prefixes of AS15133''"
    by simp
  have h6: "json_Unmarshal (example_env []) ''prefixes of AS15133'' =
     Inr [\<lparr>Prefix = ''93.184.216.0/24'', Count = 1, Total = 3\<rparr>,
          \<lparr>Prefix = ''93.184.215.0/24'', Count = 1, Total = 3\<rparr>,
          \<lparr>Prefix = ''192.229.128.0/17'', Count = 1, Total = 3\<rparr>]"
    by (simp add: example_env_def example_unmarshal_def)
  from one_record_for_each_prefix [OF h1 h2 h3 h4 h5 h6,
      of "Some [\<lparr>Hostname = ''198.51.100.0/24'', IP = []\<rparr>]"] h1 h3 h6
  show ?thesis by (simp add: elems_def)
qed

section \<open>A failed pass leaves the accumulator alone\<close>

text \<open>
  C10. When a stage of a pass fails (dig, the origin lookup, or the prefix fetch), the
  accumulator after the pass is the accumulator before it: the records are appended
  after the third stage has succeeded, and nowhere else.
\<close>

theorem failed_pass_keeps_results:
  assumes "(\<exists>err s1. getIPsByDig env domain (print (ProcessingDomain domain) s) = (Inl err, s1)) \<or>
           (\<exists>ips s1 err s2.
              getIPsByDig env domain (print (ProcessingDomain domain) s) = (Inr ips, s1) \<and>
              getASNumberByWhois env (ips ! 0) s1 = (Inl err, s2)) \<or>
           (\<exists>ips s1 asn s2 err s3.
              getIPsByDig env domain (print (ProcessingDomain domain) s) = (Inr ips, s1) \<and>
              getASNumberByWhois env (ips ! 0) s1 = (Inr asn, s2) \<and>
              getIPPrefixes env asn (print (ASNumberForDomain domain (ips ! 0) asn) s2) =
                (Inl err, s3))"
  shows "snd (process_domain env (s, results) domain) = results"
  using assms
proof (elim disjE exE conjE)
  fix err s1
  assume "getIPsByDig env domain (print (ProcessingDomain domain) s) = (Inl err, s1)"
  then show ?thesis by (simp add: pass_fails_dig)
next
  fix ips s1 err s2
  assume "getIPsByDig env domain (print (ProcessingDomain domain) s) = (Inr ips, s1)"
    and "getASNumberByWhois env (ips ! 0) s1 = (Inl err, s2)"
  then show ?thesis by (simp add: pass_fails_whois)
next
  fix ips s1 asn s2 err s3
  assume "getIPsByDig env domain (print (ProcessingDomain domain) s) = (Inr ips, s1)"
    and "getASNumberByWhois env (ips ! 0) s1 = (Inr asn, s2)"
    and "getIPPrefixes env asn (print (ASNumberForDomain domain (ips ! 0) asn) s2) = (Inl err, s3)"
  then show ?thesis by (simp add: pass_fails_prefixes)
qed

theorem failed_pass_keeps_results_witness:
  "getIPsByDig (example_env []) ''nodns.example'' (print (ProcessingDomain ''nodns.example'') (0, [])) =
     (Inl (FailedToRunDig ''exit status 9''),
      (1, [Print (ProcessingDomain ''nodns.example''),
           Exec ''dig'' [''+short'', ''nodns.example'']])) \<and>
   snd (process_domain (example_env [])
          ((0, []), Some [\<lparr>Hostname = ''198.51.100.0/24'', IP = []\<rparr>]) ''nodns.example'') =
     Some [\<lparr>Hostname = ''198.51.100.0/24'', IP = []\<rparr>]"
proof -
  have h: "getIPsByDig (example_env []) ''nodns.example''
      (print (ProcessingDomain ''nodns.example'') (0, [])) =
     (Inl (FailedToRunDig ''exit status 9''),
      (1, [Print (ProcessingDomain ''nodns.example''),
           Exec ''dig'' [''+short'', ''nodns.example'']]))"
    by (simp add: print_pair example_dig_nodns)
  then have "(\<exists>err s1. getIPsByDig (example_env []) ''nodns.example''
        (print (ProcessingDomain ''nodns.example'') (0, [])) = (Inl err, s1)) \<or>
     (\<exists>ips s1 err s2.
        getIPsByDig (example_env []) ''nodns.example''
          (print (ProcessingDomain ''nodns.example'') (0, [])) = (Inr ips, s1) \<and>
        getASNumberByWhois (example_env []) (ips ! 0) s1 = (Inl err, s2)) \<or>
     (\<exists>ips s1 asn s2 err s3.
        getIPsByDig (example_env []) ''nodns.example''
          (print (ProcessingDomain ''nodns.example'') (0, [])) = (Inr ips, s1) \<and>
        getASNumberByWhois (example_env []) (ips ! 0) s1 = (Inr asn, s2) \<and>
        getIPPrefixes (example_env []) asn
          (print (ASNumberForDomain ''nodns.example'' (ips ! 0) asn) s2) = (Inl err, s3))"
    by blast
  from failed_pass_keeps_results [OF this] h show ?thesis by simp
qed

section \<open>A response that is not 200\<close>

text \<open>
  C4. When the request for the prefixes of an AS number is answered with a status
  other than 200, \<open>getIPPrefixes\<close> returns the error "received non-200 response", the
  pass of the current domain ends with the line that reports this error, and the
  accumulator is as it was before the pass: nothing of that response is recorded.
\<close>

theorem non200_skips_domain:
  assumes "getIPsByDig env domain (print (ProcessingDomain domain) s) = (Inr ips, s1)"
    and "getASNumberByWhois env (ips ! 0) s1 = (Inr asn, s2)"
    and "http_Get env (prefixes_url asn) (fst s2) = (Inr resp, w3)"
    and "StatusCode resp \<noteq> 200"
  shows "fst (getIPPrefixes env asn (print (ASNumberForDomain domain (ips ! 0) asn) s2)) =
           Inl (Non200Response (Status resp)) \<and>
         snd (process_domain env (s, results) domain) = results \<and>
         last (trace (fst (process_domain env (s, results) domain))) =
           Print (ErrorGettingIPPrefixes asn domain (Non200Response (Status resp)))"
proof -
  let ?s2 = "print (ASNumberForDomain domain (ips ! 0) asn) s2"
  have "http_Get env (prefixes_url asn) (fst ?s2) = (Inr resp, w3)"
    using assms(3) by (simp add: fst_print)
  from getIPPrefixes_non200 [OF this assms(4)]
  have g: "getIPPrefixes env asn ?s2 =
      (Inl (Non200Response (Status resp)), (w3, snd ?s2 @ [Get (prefixes_url asn)]))" .
  from pass_fails_prefixes [OF assms(1,2) g, of results] g
  show ?thesis by (simp add: trace_print)
qed

theorem non200_skips_domain_witness:
  "getIPsByDig (example_env []) ''http503.example''
      (print (ProcessingDomain ''http503.example'') (0, [])) =
     (Inr [''192.0.2.7''],
      (1, [Print (ProcessingDomain ''http503.example''),
           Exec ''dig'' [''+short'', ''http503.example'']])) \<and>
   StatusCode \<lparr>StatusCode = 503, Status = ''503 Service Unavailable'', Body = Inr []\<rparr> \<noteq> 200 \<and>
   snd (process_domain (example_env [])
          ((0, []), Some [\<lparr>Hostname = ''198.51.100.0/24'', IP = []\<rparr>]) ''http503.example'') =
     Some [\<lparr>Hostname = ''198.51.100.0/24'', IP = []\<rparr>] \<and>
   last (trace (fst (process_domain (example_env [])
          ((0, []), Some [\<lparr>Hostname = ''198.51.100.0/24'', IP = []\<rparr>]) ''http503.example''))) =
     Print (ErrorGettingIPPrefixes 64500 ''http503.example''
              (Non200Response ''503 Service Unavailable''))"
proof -
  have h1: "getIPsByDig (example_env []) ''http503.example''
      (print (ProcessingDomain ''http503.example'') (0, [])) =
     (Inr [''192.0.2.7''],
      (1, [Print (ProcessingDomain ''http503.example''),
           Exec ''dig'' [''+short'', ''http503.example'']]))"
    by (simp add: print_pair example_dig_503)
  have h2: "getASNumberByWhois (example_env []) ([''192.0.2.7''] ! 0)
      (1, [Print (ProcessingDomain ''http503.example''),
           Exec ''dig'' [''+short'', ''http503.example'']]) =
     (Inr 64500, (2, [Print (ProcessingDomain ''http503.example''),
           Exec ''dig'' [''+short'', ''http503.example''], Exec ''whois'' [''192.0.2.7'']]))"
    by (simp add: example_whois_503)
  have h3: "http_Get (example_env []) (prefixes_url 64500)
      (fst (2::nat, [Print (ProcessingDomain ''http503.example''),
           Exec ''dig'' [''+short'', ''http503.example''], Exec ''whois'' [''192.0.2.7'']])) =
     (Inr \<lparr>StatusCode = 503, Status = ''503 Service Unavailable'', Body = Inr []\<rparr>, 3)"
    by (simp add: example_get_503)
  have h4: "StatusCode \<lparr>StatusCode = 503, Status = ''503 Service Unavailable'', Body = Inr []\<rparr> \<noteq> 200"
    by simp
  from non200_skips_domain [OF h1 h2 h3 h4,
      of "Some [\<lparr>Hostname = ''198.51.100.0/24'', IP = []\<rparr>]"] h1 h4
  show ?thesis by simp
qed

section \<open>The whole batch\<close>

lemma trace_process_domain:
  "\<exists>evs. trace (fst (process_domain env (s, results) domain)) =
           trace s @ Print (ProcessingDomain domain) # evs \<and>
         (\<forall>e\<in>set evs. \<not> is_processing e)"
proof -
  obtain r s1 where d: "getIPsByDig env domain (print (ProcessingDomain domain) s) = (r, s1)"
    by (cases "getIPsByDig env domain (print (ProcessingDomain domain) s)") blast
  have t1: "trace s1 =
      trace s @ [Print (ProcessingDomain domain), Exec ''dig'' [''+short'', domain]]"
    using trace_getIPsByDig [OF d] by (simp add: trace_print)
  show ?thesis
  proof (cases r)
    case (Inl err)
    with d t1 show ?thesis
      by (simp add: pass_fails_dig trace_print is_processing_def)
  next
    case (Inr ips)
    with d have d': "getIPsByDig env domain (print (ProcessingDomain domain) s) = (Inr ips, s1)"
      by simp
    have ne: "ips \<noteq> []" using d' by (rule getIPsByDig_not_Nil)
    from trace_resolve_ips [OF ne, of env domain s1 results] obtain evs where
      t: "trace (fst (resolve_ips env domain ips (s1, results))) =
            trace s1 @ Exec ''whois'' [ips ! 0] # evs"
      and n: "\<forall>e\<in>set evs. \<not> is_whois e \<and> \<not> is_processing e \<and> e \<noteq> Print (NoIPsFound domain)"
      by blast
    have "trace (fst (process_domain env (s, results) domain)) =
        trace s @ Print (ProcessingDomain domain) #
          (Exec ''dig'' [''+short'', domain] # Exec ''whois'' [ips ! 0] # evs)"
      using process_domain_resolved [OF d'] t t1 by simp
    moreover have "\<forall>e\<in>set (Exec ''dig'' [''+short'', domain] # Exec ''whois'' [ips ! 0] # evs).
        \<not> is_processing e"
      using n by (simp add: is_processing_def)
    ultimately show ?thesis by blast
  qed
qed

lemma trace_process_domains:
  "\<exists>evs. trace (fst (process_domains env domains (s, results))) = trace s @ evs \<and>
         filter is_processing evs = map (\<lambda>d. Print (ProcessingDomain d)) domains"
proof (induction domains arbitrary: s results)
  case Nil
  show ?case by (simp add: process_domains_def)
next
  case (Cons d ds)
  obtain s' results' where p: "process_domain env (s, results) d = (s', results')"
    by (cases "process_domain env (s, results) d") blast
  from trace_process_domain [of env s results d] p obtain evs1 where
    t1: "trace s' = trace s @ Print (ProcessingDomain d) # evs1"
    and n1: "\<forall>e\<in>set evs1. \<not> is_processing e"
    by auto
  from Cons.IH [of s' results'] obtain evs2 where
    t2: "trace (fst (process_domains env ds (s', results'))) = trace s' @ evs2"
    and f2: "filter is_processing evs2 = map (\<lambda>d. Print (ProcessingDomain d)) ds"
    by blast
  have "process_domains env (d # ds) (s, results) = process_domains env ds (s', results')"
    using p by (simp add: process_domains_def)
  then have "trace (fst (process_domains env (d # ds) (s, results))) =
      trace s @ (Print (ProcessingDomain d) # evs1 @ evs2)"
    using t1 t2 by simp
  moreover have "filter is_processing (Print (ProcessingDomain d) # evs1 @ evs2) =
      map (\<lambda>d. Print (ProcessingDomain d)) (d # ds)"
    using n1 f2 by (simp add: is_processing_def filter_empty_conv)
  ultimately show ?case by blast
qed

lemma trace_main:
  assumes "os_Executable env (fst s) = (Inr exePath, w1)"
    and "ioutil_ReadFile env (filepath_Join env (filepath_Dir env exePath) ''domains.txt'') w1 =
           (Inr txt, w2)"
  shows "\<exists>evs json l.
           new_events s (main env s) =
             [Executable, ReadFile (filepath_Join env (filepath_Dir env exePath) ''domains.txt'')] @
             evs @
             [WriteFile (filepath_Join env (filepath_Dir env exePath) ''prefix.json'') json,
              Print l] \<and>
           filter is_processing evs =
             map (\<lambda>d. Print (ProcessingDomain d)) (Split (TrimSpace txt) newline) \<and>
           \<not> is_processing (Print l)"
proof -
  let ?in = "filepath_Join env (filepath_Dir env exePath) ''domains.txt''"
  let ?out = "filepath_Join env (filepath_Dir env exePath) ''prefix.json''"
  let ?s2 = "(w2, snd s @ [Executable, ReadFile ?in])"
  let ?domains = "Split (TrimSpace txt) newline"
  obtain s3 results where p: "process_domains env ?domains (?s2, None) = (s3, results)"
    by (cases "process_domains env ?domains (?s2, None)") blast
  from trace_process_domains [of env ?domains ?s2 None] p obtain evs where
    t3: "trace s3 = trace ?s2 @ evs"
    and f: "filter is_processing evs = map (\<lambda>d. Print (ProcessingDomain d)) ?domains"
    by auto
  obtain r s4 where sv: "savePrefixesToFile env results ?out s3 = (r, s4)"
    by (cases "savePrefixesToFile env results ?out s3") blast
  have t4: "trace s4 = trace s3 @ [WriteFile ?out (MarshalIndent (json_string env) results)]"
    using sv by (auto simp: savePrefixesToFile_def call_def trace_def Let_def
                      split: prod.splits option.splits)
  have m: "main env s =
      (case r of Some err \<Rightarrow> print (ErrorSavingPrefixes err) s4
               | None \<Rightarrow> print (PrefixesSaved ?out) s4)"
    using assms p sv
    by (simp add: main_def call_def readDomainsFromFile_def Let_def split: option.splits)
  obtain l where l: "main env s = print l s4" "\<not> is_processing (Print l)"
    using m by (cases r) (simp_all add: is_processing_def)
  have "trace (main env s) =
      trace s @ ([Executable, ReadFile ?in] @ evs @
        [WriteFile ?out (MarshalIndent (json_string env) results), Print l])"
    using l(1) t4 t3 by (simp add: trace_def print_def)
  then have "new_events s (main env s) =
      [Executable, ReadFile ?in] @ evs @
        [WriteFile ?out (MarshalIndent (json_string env) results), Print l]"
    by (rule new_events_append)
  with f l(2) show ?thesis by blast
qed

lemma process_domain_starts_with_dig:
  "\<exists>evs. trace (fst (process_domain env acc domain)) =
           trace (fst acc) @
           Print (ProcessingDomain domain) # Exec ''dig'' [''+short'', domain] # evs"
proof -
  obtain s results where acc: "acc = (s, results)" by (cases acc) blast
  obtain r s1 where d: "getIPsByDig env domain (print (ProcessingDomain domain) s) = (r, s1)"
    by (cases "getIPsByDig env domain (print (ProcessingDomain domain) s)") blast
  have t1: "trace s1 =
      trace s @ [Print (ProcessingDomain domain), Exec ''dig'' [''+short'', domain]]"
    using trace_getIPsByDig [OF d] by (simp add: trace_print)
  show ?thesis
  proof (cases r)
    case (Inl err)
    with d t1 acc show ?thesis by (simp add: pass_fails_dig trace_print)
  next
    case (Inr ips)
    with d have d': "getIPsByDig env domain (print (ProcessingDomain domain) s) = (Inr ips, s1)"
      by simp
    have ne: "ips \<noteq> []" using d' by (rule getIPsByDig_not_Nil)
    from trace_resolve_ips [OF ne, of env domain s1 results] obtain evs where
      "trace (fst (resolve_ips env domain ips (s1, results))) =
         trace s1 @ Exec ''whois'' [ips ! 0] # evs"
      by blast
    then have "trace (fst (process_domain env acc domain)) =
        trace (fst acc) @ Print (ProcessingDomain domain) # Exec ''dig'' [''+short'', domain] #
          (Exec ''whois'' [ips ! 0] # evs)"
      using process_domain_resolved [OF d'] t1 acc by simp
    then show ?thesis by blast
  qed
qed

lemma trace_pass:
  "trace (fst (process_domain env acc domain)) =
     trace (fst acc) @ new_events (fst acc) (fst (process_domain env acc domain))"
proof -
  from process_domain_starts_with_dig [of env acc domain] obtain evs where
    t: "trace (fst (process_domain env acc domain)) =
          trace (fst acc) @
          Print (ProcessingDomain domain) # Exec ''dig'' [''+short'', domain] # evs"
    by blast
  from new_events_append [OF t] t show ?thesis by simp
qed

lemma after_passes_eq:
  "k \<le> length domains \<Longrightarrow>
   after_passes env domains acc k = process_domains env (take k domains) acc"
proof (induction k)
  case 0
  show ?case by (simp add: process_domains_def)
next
  case (Suc k)
  then have "take (Suc k) domains = take k domains @ [domains ! k]"
    by (simp add: take_Suc_conv_app_nth)
  with Suc show ?case by (simp add: process_domains_def)
qed

lemma trace_after_passes:
  "trace (fst (after_passes env domains acc k)) =
     trace (fst acc) @
     concat (map (\<lambda>j. new_events (fst (after_passes env domains acc j))
                         (fst (after_passes env domains acc (Suc j)))) [0..<k])"
proof (induction k)
  case 0
  show ?case by simp
next
  case (Suc k)
  have "trace (fst (after_passes env domains acc (Suc k))) =
      trace (fst (after_passes env domains acc k)) @
      new_events (fst (after_passes env domains acc k))
        (fst (after_passes env domains acc (Suc k)))"
    using trace_pass [of env "after_passes env domains acc k" "domains ! k"] by simp
  with Suc show ?case by simp
qed

lemma run_of_main:
  assumes "os_Executable env (fst s) = (Inr exePath, w1)"
    and "ioutil_ReadFile env (filepath_Join env (filepath_Dir env exePath) ''domains.txt'') w1 =
           (Inr txt, w2)"
    and "domains = Split (TrimSpace txt) newline"
    and "acc0 = ((w2, snd s @ [Executable,
            ReadFile (filepath_Join env (filepath_Dir env exePath) ''domains.txt'')]), None)"
  shows "\<exists>l. (l = PrefixesSaved (filepath_Join env (filepath_Dir env exePath) ''prefix.json'') \<or>
              (\<exists>err. l = ErrorSavingPrefixes (FailedToWriteFile err))) \<and>
           new_events s (main env s) =
             [Executable, ReadFile (filepath_Join env (filepath_Dir env exePath) ''domains.txt'')] @
             concat (map (\<lambda>k. new_events (fst (after_passes env domains acc0 k))
                                 (fst (after_passes env domains acc0 (Suc k))))
                       [0..<length domains]) @
             [WriteFile (filepath_Join env (filepath_Dir env exePath) ''prefix.json'')
                (MarshalIndent (json_string env)
                   (snd (after_passes env domains acc0 (length domains)))),
              Print l]"
proof -
  let ?in = "filepath_Join env (filepath_Dir env exePath) ''domains.txt''"
  let ?out = "filepath_Join env (filepath_Dir env exePath) ''prefix.json''"
  let ?A = "after_passes env domains acc0"
  let ?evs = "concat (map (\<lambda>k. new_events (fst (?A k)) (fst (?A (Suc k)))) [0..<length domains])"
  obtain s3 results where p: "?A (length domains) = (s3, results)"
    by (cases "?A (length domains)") blast
  have pd: "process_domains env domains acc0 = (s3, results)"
    using after_passes_eq [of "length domains" domains env acc0] p by simp
  have t3: "trace s3 = trace s @ [Executable, ReadFile ?in] @ ?evs"
    using trace_after_passes [of env domains acc0 "length domains"] p assms(4)
    by (simp add: trace_def)
  obtain r s4 where sv: "savePrefixesToFile env results ?out s3 = (r, s4)"
    by (cases "savePrefixesToFile env results ?out s3") blast
  have t4: "trace s4 = trace s3 @ [WriteFile ?out (MarshalIndent (json_string env) results)]"
    using sv by (auto simp: savePrefixesToFile_def call_def trace_def Let_def
                      split: prod.splits option.splits)
  have r: "r = None \<or> (\<exists>err. r = Some (FailedToWriteFile err))"
    using sv by (auto simp: savePrefixesToFile_def call_def Let_def
                      split: prod.splits option.splits)
  have m: "main env s =
      (case r of Some err \<Rightarrow> print (ErrorSavingPrefixes err) s4
               | None \<Rightarrow> print (PrefixesSaved ?out) s4)"
    using assms pd sv
    by (simp add: main_def call_def readDomainsFromFile_def Let_def split: option.splits)
  obtain l where l: "main env s = print l s4"
    "l = PrefixesSaved ?out \<or> (\<exists>err. l = ErrorSavingPrefixes (FailedToWriteFile err))"
    using m r by (cases r) auto
  have "trace (main env s) =
      trace s @ ([Executable, ReadFile ?in] @ ?evs @
        [WriteFile ?out (MarshalIndent (json_string env) results), Print l])"
    using l(1) t4 t3 by (simp add: trace_def print_def)
  then have "new_events s (main env s) =
      [Executable, ReadFile ?in] @ ?evs @
        [WriteFile ?out (MarshalIndent (json_string env) results), Print l]"
    by (rule new_events_append)
  with l(2) p show ?thesis by auto
qed

text \<open>
  C6. Once the list of domains has been read (\<open>os.Executable\<close> and the read of
  \<open>domains.txt\<close> succeeded), the events of the run are: the two reads, then the events
  of one pass for every domain of the list, in the order of the list, each pass
  starting from the state and the accumulator that the pass before it left, then the
  write of the output file with the accumulator left by the last pass, and the closing
  line. Every pass prints "Processing domain" and runs dig for its domain. A pass in
  which a stage fails ends with the line that reports the error for that domain, its
  accumulator unchanged, and the pass of the next domain starts from there: no failure
  of a stage ends the batch.
\<close>

theorem batch_never_aborts:
  assumes "os_Executable env (fst s) = (Inr exePath, w1)"
    and "ioutil_ReadFile env (filepath_Join env (filepath_Dir env exePath) ''domains.txt'') w1 =
           (Inr txt, w2)"
    and "domains = Split (TrimSpace txt) newline"
    and "acc0 = ((w2, snd s @ [Executable,
            ReadFile (filepath_Join env (filepath_Dir env exePath) ''domains.txt'')]), None)"
  shows "(\<exists>l. (l = PrefixesSaved (filepath_Join env (filepath_Dir env exePath) ''prefix.json'') \<or>
               (\<exists>err. l = ErrorSavingPrefixes (FailedToWriteFile err))) \<and>
            new_events s (main env s) =
              [Executable,
               ReadFile (filepath_Join env (filepath_Dir env exePath) ''domains.txt'')] @
              concat (map (\<lambda>k. new_events (fst (after_passes env domains acc0 k))
                                  (fst (after_passes env domains acc0 (Suc k))))
                        [0..<length domains]) @
              [WriteFile (filepath_Join env (filepath_Dir env exePath) ''prefix.json'')
                 (MarshalIndent (json_string env)
                    (snd (after_passes env domains acc0 (length domains)))),
               Print l]) \<and>
         (\<forall>k<length domains. \<exists>evs.
            new_events (fst (after_passes env domains acc0 k))
                       (fst (after_passes env domains acc0 (Suc k))) =
              Print (ProcessingDomain (domains ! k)) #
              Exec ''dig'' [''+short'', domains ! k] # evs) \<and>
         (\<forall>k<length domains. \<forall>err s1.
            getIPsByDig env (domains ! k)
              (print (ProcessingDomain (domains ! k)) (fst (after_passes env domains acc0 k))) =
              (Inl err, s1) \<longrightarrow>
            after_passes env domains acc0 (Suc k) =
              (print (ErrorGettingIPs (domains ! k) err) s1,
               snd (after_passes env domains acc0 k))) \<and>
         (\<forall>k<length domains. \<forall>ips s1 err s2.
            getIPsByDig env (domains ! k)
              (print (ProcessingDomain (domains ! k)) (fst (after_passes env domains acc0 k))) =
              (Inr ips, s1) \<and>
            getASNumberByWhois env (ips ! 0) s1 = (Inl err, s2) \<longrightarrow>
            after_passes env domains acc0 (Suc k) =
              (print (ErrorGettingASNumber (domains ! k) err) s2,
               snd (after_passes env domains acc0 k))) \<and>
         (\<forall>k<length domains. \<forall>ips s1 asn s2 err s3.
            getIPsByDig env (domains ! k)
              (print (ProcessingDomain (domains ! k)) (fst (after_passes env domains acc0 k))) =
              (Inr ips, s1) \<and>
            getASNumberByWhois env (ips ! 0) s1 = (Inr asn, s2) \<and>
            getIPPrefixes env asn (print (ASNumberForDomain (domains ! k) (ips ! 0) asn) s2) =
              (Inl err, s3) \<longrightarrow>
            after_passes env domains acc0 (Suc k) =
              (print (ErrorGettingIPPrefixes asn (domains ! k) err) s3,
               snd (after_passes env domains acc0 k))) \<and>
         filter is_processing (new_events s (main env s)) =
           map (\<lambda>d. Print (ProcessingDomain d)) domains"
proof (intro conjI)
  let ?A = "after_passes env domains acc0"
  show "\<exists>l. (l = PrefixesSaved (filepath_Join env (filepath_Dir env exePath) ''prefix.json'') \<or>
               (\<exists>err. l = ErrorSavingPrefixes (FailedToWriteFile err))) \<and>
            new_events s (main env s) =
              [Executable,
               ReadFile (filepath_Join env (filepath_Dir env exePath) ''domains.txt'')] @
              concat (map (\<lambda>k. new_events (fst (?A k)) (fst (?A (Suc k))))
                        [0..<length domains]) @
              [WriteFile (filepath_Join env (filepath_Dir env exePath) ''prefix.json'')
                 (MarshalIndent (json_string env) (snd (?A (length domains)))),
               Print l]"
    using assms by (rule run_of_main)
  show "\<forall>k<length domains. \<exists>evs.
      new_events (fst (?A k)) (fst (?A (Suc k))) =
        Print (ProcessingDomain (domains ! k)) # Exec ''dig'' [''+short'', domains ! k] # evs"
  proof (intro allI impI)
    fix k
    from process_domain_starts_with_dig [of env "?A k" "domains ! k"] obtain evs where
      "trace (fst (?A (Suc k))) =
         trace (fst (?A k)) @
         Print (ProcessingDomain (domains ! k)) # Exec ''dig'' [''+short'', domains ! k] # evs"
      by auto
    from new_events_append [OF this]
    show "\<exists>evs. new_events (fst (?A k)) (fst (?A (Suc k))) =
        Print (ProcessingDomain (domains ! k)) # Exec ''dig'' [''+short'', domains ! k] # evs"
      by blast
  qed
  show "\<forall>k<length domains. \<forall>err s1.
      getIPsByDig env (domains ! k) (print (ProcessingDomain (domains ! k)) (fst (?A k))) =
        (Inl err, s1) \<longrightarrow>
      ?A (Suc k) = (print (ErrorGettingIPs (domains ! k) err) s1, snd (?A k))"
  proof (intro allI impI)
    fix k err s1
    assume "getIPsByDig env (domains ! k) (print (ProcessingDomain (domains ! k)) (fst (?A k))) =
        (Inl err, s1)"
    from pass_fails_dig [OF this, of "snd (?A k)"]
    show "?A (Suc k) = (print (ErrorGettingIPs (domains ! k) err) s1, snd (?A k))"
      by simp
  qed
  show "\<forall>k<length domains. \<forall>ips s1 err s2.
      getIPsByDig env (domains ! k) (print (ProcessingDomain (domains ! k)) (fst (?A k))) =
        (Inr ips, s1) \<and>
      getASNumberByWhois env (ips ! 0) s1 = (Inl err, s2) \<longrightarrow>
      ?A (Suc k) = (print (ErrorGettingASNumber (domains ! k) err) s2, snd (?A k))"
  proof (intro allI impI, elim conjE)
    fix k ips s1 err s2
    assume "getIPsByDig env (domains ! k) (print (ProcessingDomain (domains ! k)) (fst (?A k))) =
        (Inr ips, s1)" and "getASNumberByWhois env (ips ! 0) s1 = (Inl err, s2)"
    from pass_fails_whois [OF this, of "snd (?A k)"]
    show "?A (Suc k) = (print (ErrorGettingASNumber (domains ! k) err) s2, snd (?A k))"
      by simp
  qed
  show "\<forall>k<length domains. \<forall>ips s1 asn s2 err s3.
      getIPsByDig env (domains ! k) (print (ProcessingDomain (domains ! k)) (fst (?A k))) =
        (Inr ips, s1) \<and>
      getASNumberByWhois env (ips ! 0) s1 = (Inr asn, s2) \<and>
      getIPPrefixes env asn (print (ASNumberForDomain (domains ! k) (ips ! 0) asn) s2) =
        (Inl err, s3) \<longrightarrow>
      ?A (Suc k) = (print (ErrorGettingIPPrefixes asn (domains ! k) err) s3, snd (?A k))"
  proof (intro allI impI, elim conjE)
    fix k ips s1 asn s2 err s3
    assume "getIPsByDig env (domains ! k) (print (ProcessingDomain (domains ! k)) (fst (?A k))) =
        (Inr ips, s1)" and "getASNumberByWhois env (ips ! 0) s1 = (Inr asn, s2)"
      and "getIPPrefixes env asn (print (ASNumberForDomain (domains ! k) (ips ! 0) asn) s2) =
        (Inl err, s3)"
    from pass_fails_prefixes [OF this, of "snd (?A k)"]
    show "?A (Suc k) = (print (ErrorGettingIPPrefixes asn (domains ! k) err) s3, snd (?A k))"
      by simp
  qed
  from trace_main [OF assms(1,2)] obtain evs json l where
    n: "new_events s (main env s) =
          [Executable, ReadFile (filepath_Join env (filepath_Dir env exePath) ''domains.txt'')] @
          evs @
          [WriteFile (filepath_Join env (filepath_Dir env exePath) ''prefix.json'') json, Print l]"
    and f: "filter is_processing evs =
          map (\<lambda>d. Print (ProcessingDomain d)) (Split (TrimSpace txt) newline)"
    and l: "\<not> is_processing (Print l)"
    by blast
  show "filter is_processing (new_events s (main env s)) =
      map (\<lambda>d. Print (ProcessingDomain d)) domains"
    unfolding n assms(3) using f l by (simp add: is_processing_def)
qed

theorem batch_never_aborts_witness:
  "os_Executable (example_env (''nodns.example'' @ [newline] @ ''example.com'' @ [newline]))
      (fst (0::nat, [] :: event list)) = (Inr ''/opt/tool/main'', 1) \<and>
   ioutil_ReadFile (example_env (''nodns.example'' @ [newline] @ ''example.com'' @ [newline]))
      ''/opt/tool/domains.txt'' 1 =
     (Inr (''nodns.example'' @ [newline] @ ''example.com'' @ [newline]), 2) \<and>
   [''nodns.example'', ''example.com''] =
     Split (TrimSpace (''nodns.example'' @ [newline] @ ''example.com'' @ [newline])) newline \<and>
   after_passes (example_env (''nodns.example'' @ [newline] @ ''example.com'' @ [newline]))
       [''nodns.example'', ''example.com'']
       ((2, [Executable, ReadFile ''/opt/tool/domains.txt'']), None) (Suc 0) =
     (print (ErrorGettingIPs ''nodns.example'' (FailedToRunDig ''exit status 9''))
        (3, [Executable, ReadFile ''/opt/tool/domains.txt'',
             Print (ProcessingDomain ''nodns.example''),
             Exec ''dig'' [''+short'', ''nodns.example'']]), None) \<and>
   (\<exists>l. new_events (0, [])
          (main (example_env (''nodns.example'' @ [newline] @ ''example.com'' @ [newline]))
             (0, [])) =
        [Executable, ReadFile ''/opt/tool/domains.txt'',
         Print (ProcessingDomain ''nodns.example''),
         Exec ''dig'' [''+short'', ''nodns.example''],
         Print (ErrorGettingIPs ''nodns.example'' (FailedToRunDig ''exit status 9'')),
         Print (ProcessingDomain ''example.com''),
         Exec ''dig'' [''+short'', ''example.com''],
         Exec ''whois'' [''93.184.216.34''],
         Print (ASNumberForDomain ''example.com'' ''93.184.216.34'' 15133),
         Get (prefixes_url 15133),
         WriteFile ''/opt/tool/prefix.json''
           (MarshalIndent
              (json_string
                 (example_env (''nodns.example'' @ [newline] @ ''example.com'' @ [newline])))
              (Some [\<lparr>Hostname = ''93.184.216.0/24'', IP = []\<rparr>,
                     \<lparr>Hostname = ''93.184.215.0/24'', IP = []\<rparr>,
                     \<lparr>Hostname = ''192.229.128.0/17'', IP = []\<rparr>])),
         Print l])"
proof -
  define doms where "doms = ''nodns.example'' @ [newline] @ ''example.com'' @ [newline]"
  let ?env = "example_env doms"
  let ?ds = "[''nodns.example'', ''example.com'']"
  let ?a0 = "((2::nat, [Executable, ReadFile ''/opt/tool/domains.txt'']),
              None :: PrefixForFile slice)"
  let ?s1 = "(3::nat, [Executable, ReadFile ''/opt/tool/domains.txt'',
             Print (ProcessingDomain ''nodns.example''),
             Exec ''dig'' [''+short'', ''nodns.example'']])"
  let ?events = "[Executable, ReadFile ''/opt/tool/domains.txt'',
         Print (ProcessingDomain ''nodns.example''),
         Exec ''dig'' [''+short'', ''nodns.example''],
         Print (ErrorGettingIPs ''nodns.example'' (FailedToRunDig ''exit status 9'')),
         Print (ProcessingDomain ''example.com''),
         Exec ''dig'' [''+short'', ''example.com''],
         Exec ''whois'' [''93.184.216.34''],
         Print (ASNumberForDomain ''example.com'' ''93.184.216.34'' 15133),
         Get (prefixes_url 15133)]"
  let ?records = "Some [\<lparr>Hostname = ''93.184.216.0/24'', IP = []\<rparr>,
                     \<lparr>Hostname = ''93.184.215.0/24'', IP = []\<rparr>,
                     \<lparr>Hostname = ''192.229.128.0/17'', IP = []\<rparr>]"
  have h1: "os_Executable ?env (fst (0::nat, [] :: event list)) = (Inr ''/opt/tool/main'', 1)"
    by (simp add: example_env_def)
  have j: "filepath_Join ?env (filepath_Dir ?env ''/opt/tool/main'') ''domains.txt'' =
      ''/opt/tool/domains.txt''"
    "filepath_Join ?env (filepath_Dir ?env ''/opt/tool/main'') ''prefix.json'' =
      ''/opt/tool/prefix.json''"
    by (simp_all add: example_env_def)
  have h2: "ioutil_ReadFile ?env
      (filepath_Join ?env (filepath_Dir ?env ''/opt/tool/main'') ''domains.txt'') 1 =
      (Inr doms, 2)"
    by (simp add: example_env_def)
  have h3: "?ds = Split (TrimSpace doms) newline"
    by (simp add: doms_def TrimSpace_def space_width_def space_encodings_def newline_def)
  have h4: "?a0 = ((2, snd (0::nat, [] :: event list) @ [Executable,
      ReadFile (filepath_Join ?env (filepath_Dir ?env ''/opt/tool/main'') ''domains.txt'')]), None)"
    unfolding j by simp
  have d0: "getIPsByDig ?env (?ds ! 0)
      (print (ProcessingDomain (?ds ! 0)) (fst (after_passes ?env ?ds ?a0 0))) =
      (Inl (FailedToRunDig ''exit status 9''), ?s1)"
    by (simp add: print_pair example_dig_nodns)
  note b = batch_never_aborts [OF h1 h2 h3 h4]
  have a1: "after_passes ?env ?ds ?a0 (Suc 0) =
      (print (ErrorGettingIPs ''nodns.example'' (FailedToRunDig ''exit status 9'')) ?s1, None)"
    using b [THEN conjunct2, THEN conjunct2, THEN conjunct1, rule_format, of 0, OF _ d0]
    by simp
  have a2: "after_passes ?env ?ds ?a0 (Suc (Suc 0)) = ((6, ?events), ?records)"
    unfolding after_passes.simps(2) [of ?env ?ds ?a0 "Suc 0"] a1
    by (simp add: process_domain_def resolve_ips_def print_pair example_dig_com
          example_whois_com example_prefixes_com append_slice_def elems_def)
  from b [THEN conjunct1] obtain l where
    n: "new_events (0, []) (main ?env (0, [])) =
      [Executable,
       ReadFile (filepath_Join ?env (filepath_Dir ?env ''/opt/tool/main'') ''domains.txt'')] @
      concat (map (\<lambda>k. new_events (fst (after_passes ?env ?ds ?a0 k))
                          (fst (after_passes ?env ?ds ?a0 (Suc k))))
                [0..<length ?ds]) @
      [WriteFile (filepath_Join ?env (filepath_Dir ?env ''/opt/tool/main'') ''prefix.json'')
         (MarshalIndent (json_string ?env) (snd (after_passes ?env ?ds ?a0 (length ?ds)))),
       Print l]"
    by blast
  have c: "concat (map (\<lambda>k. new_events (fst (after_passes ?env ?ds ?a0 k))
                          (fst (after_passes ?env ?ds ?a0 (Suc k))))
                [0..<length ?ds]) = drop 2 ?events"
    by (simp add: a1 a2 new_events_def trace_def print_pair del: after_passes.simps(2))
  have "new_events (0, []) (main ?env (0, [])) =
        ?events @ [WriteFile ''/opt/tool/prefix.json'' (MarshalIndent (json_string ?env) ?records),
                   Print l]"
    unfolding n c j using a2 by simp
  then have e: "\<exists>l. new_events (0, []) (main ?env (0, [])) =
        ?events @ [WriteFile ''/opt/tool/prefix.json'' (MarshalIndent (json_string ?env) ?records),
                   Print l]"
    by (rule exI)
  have h2': "ioutil_ReadFile ?env ''/opt/tool/domains.txt'' 1 = (Inr doms, 2)"
    using h2 unfolding j .
  show ?thesis
    using h1 h2' h3 a1 e unfolding doms_def by simp
qed

section \<open>Facts about the pattern and the conversion\<close>

lemma strip_literal_Some: "strip_literal p s = Some r \<longleftrightarrow> s = p @ r"
proof (induction p arbitrary: s)
  case Nil
  show ?case by auto
next
  case (Cons a p)
  show ?case by (cases s) (auto simp: Cons.IH)
qed

lemma not_space_A: "\<not> re_space CHR ''A''"
  by (simp add: re_space_def)

lemma takeWhile_run:
  assumes "\<forall>c\<in>set xs. P c" and "ys = [] \<or> \<not> P (hd ys)"
  shows "takeWhile P (xs @ ys) = xs" and "dropWhile P (xs @ ys) = ys"
  using assms by (cases ys; simp add: takeWhile_append2 dropWhile_append2)+

lemma match_here_intro:
  assumes "s = ''OriginAS:'' @ ws @ ''AS'' @ ds @ rest"
    and "ws \<noteq> []" and "\<forall>c\<in>set ws. re_space c"
    and "ds \<noteq> []" and "\<forall>c\<in>set ds. re_digit c"
    and "rest = [] \<or> \<not> re_digit (hd rest)"
  shows "match_here s = Some (''OriginAS:'' @ ws @ ''AS'' @ ds, ds)"
proof -
  have 1: "strip_literal ''OriginAS:'' s = Some (ws @ ''AS'' @ ds @ rest)"
    using assms(1) by (simp only: strip_literal_Some)
  have 2: "takeWhile re_space (ws @ ''AS'' @ ds @ rest) = ws"
    "dropWhile re_space (ws @ ''AS'' @ ds @ rest) = ''AS'' @ ds @ rest"
    using takeWhile_run [of ws re_space "''AS'' @ ds @ rest"] assms(3) not_space_A by simp_all
  have 3: "strip_literal ''AS'' (''AS'' @ ds @ rest) = Some (ds @ rest)"
    by (simp only: strip_literal_Some)
  have 4: "takeWhile re_digit (ds @ rest) = ds"
    using takeWhile_run(1) [of ds re_digit rest] assms(5,6) by simp
  show ?thesis
    unfolding match_here_def 1 option.case Let_def 2 3 4 using assms(2,4) by simp
qed

lemma match_here_elim:
  assumes "match_here s = Some (m, ds)"
  shows "\<exists>ws rest. s = ''OriginAS:'' @ ws @ ''AS'' @ ds @ rest \<and> m = ''OriginAS:'' @ ws @ ''AS'' @ ds \<and>
        ws \<noteq> [] \<and> (\<forall>c\<in>set ws. re_space c) \<and>
        ds \<noteq> [] \<and> (\<forall>c\<in>set ds. re_digit c) \<and>
        (rest = [] \<or> \<not> re_digit (hd rest))"
proof -
  obtain r1 where r1: "strip_literal ''OriginAS:'' s = Some r1"
    using assms unfolding match_here_def
    by (cases "strip_literal ''OriginAS:'' s") (simp_all del: strip_literal.simps)
  define ws where "ws = takeWhile re_space r1"
  have a1: "(if ws = [] then None
             else (case strip_literal ''AS'' (dropWhile re_space r1) of
                     None \<Rightarrow> None
                   | Some r3 \<Rightarrow>
                       (if takeWhile re_digit r3 = [] then None
                        else Some (''OriginAS:'' @ ws @ ''AS'' @ takeWhile re_digit r3,
                                   takeWhile re_digit r3)))) = Some (m, ds)"
    using assms unfolding match_here_def r1 option.case Let_def ws_def .
  then have ws: "ws \<noteq> []" by (cases "ws = []") simp_all
  obtain r3 where r3: "strip_literal ''AS'' (dropWhile re_space r1) = Some r3"
    using a1 ws by (cases "strip_literal ''AS'' (dropWhile re_space r1)") (simp_all del: strip_literal.simps)
  have a2: "(if takeWhile re_digit r3 = [] then None
             else Some (''OriginAS:'' @ ws @ ''AS'' @ takeWhile re_digit r3,
                        takeWhile re_digit r3)) = Some (m, ds)"
    using a1 ws unfolding r3 by simp
  then have ds: "ds = takeWhile re_digit r3" "ds \<noteq> []" "m = ''OriginAS:'' @ ws @ ''AS'' @ ds"
    by (cases "takeWhile re_digit r3 = []"; simp; fail)+
  have s: "s = ''OriginAS:'' @ r1" using r1 by (simp only: strip_literal_Some)
  have d: "dropWhile re_space r1 = ''AS'' @ r3" using r3 by (simp only: strip_literal_Some)
  have "r1 = ws @ dropWhile re_space r1" by (simp add: ws_def)
  moreover have "r3 = ds @ dropWhile re_digit r3" by (simp add: ds(1))
  ultimately have "s = ''OriginAS:'' @ ws @ ''AS'' @ ds @ dropWhile re_digit r3"
    using s d by simp
  moreover have "\<forall>c\<in>set ws. re_space c" by (auto simp: ws_def dest: set_takeWhileD)
  moreover have "\<forall>c\<in>set ds. re_digit c" by (auto simp: ds(1) dest: set_takeWhileD)
  moreover have "dropWhile re_digit r3 = [] \<or> \<not> re_digit (hd (dropWhile re_digit r3))"
    using hd_dropWhile [of re_digit r3] by blast
  ultimately show ?thesis using ws ds by blast
qed

lemma occurs_at_iff: "occurs_at s i ds \<longleftrightarrow> (\<exists>m. match_here (drop i s) = Some (m, ds))"
proof
  assume "occurs_at s i ds"
  then obtain ws rest where
    "drop i s = ''OriginAS:'' @ ws @ ''AS'' @ ds @ rest" "ws \<noteq> []" "\<forall>c\<in>set ws. re_space c"
    "ds \<noteq> []" "\<forall>c\<in>set ds. re_digit c" "rest = [] \<or> \<not> re_digit (hd rest)"
    unfolding occurs_at_def by blast
  then have "match_here (drop i s) = Some (''OriginAS:'' @ ws @ ''AS'' @ ds, ds)"
    by (rule match_here_intro)
  then show "\<exists>m. match_here (drop i s) = Some (m, ds)" by blast
next
  assume "\<exists>m. match_here (drop i s) = Some (m, ds)"
  then obtain m where "match_here (drop i s) = Some (m, ds)" by blast
  from match_here_elim [OF this] show "occurs_at s i ds"
    unfolding occurs_at_def by blast
qed

lemma match_here_Nil: "match_here [] = None"
  by (simp add: match_here_def)

lemma FindStringSubmatch_first:
  "match_here (drop i s) = Some (m, g) \<Longrightarrow> (\<forall>j<i. match_here (drop j s) = None) \<Longrightarrow>
   FindStringSubmatch s = [m, g]"
proof (induction s arbitrary: i)
  case Nil
  then show ?case by (simp add: match_here_Nil)
next
  case (Cons c cs)
  show ?case
  proof (cases i)
    case 0
    with Cons.prems show ?thesis by simp
  next
    case (Suc k)
    have "match_here (drop 0 (c # cs)) = None"
      using Cons.prems(2) Suc by blast
    then have h: "match_here (c # cs) = None" by simp
    have "\<forall>j<k. match_here (drop j cs) = None"
    proof (intro allI impI)
      fix j assume "j < k"
      then have "Suc j < i" using Suc by simp
      then have "match_here (drop (Suc j) (c # cs)) = None"
        using Cons.prems(2) by blast
      then show "match_here (drop j cs) = None" by simp
    qed
    moreover have "match_here (drop k cs) = Some (m, g)"
      using Cons.prems(1) Suc by simp
    ultimately have "FindStringSubmatch cs = [m, g]" by (rule Cons.IH [rotated])
    with h show ?thesis by simp
  qed
qed

lemma FindStringSubmatch_Nil_iff:
  "FindStringSubmatch s = [] \<longleftrightarrow> (\<forall>i. match_here (drop i s) = None)"
proof (induction s)
  case Nil
  show ?case by (simp add: match_here_Nil)
next
  case (Cons c cs)
  have "(\<forall>i. match_here (drop i (c # cs)) = None) \<longleftrightarrow>
        match_here (c # cs) = None \<and> (\<forall>i. match_here (drop i cs) = None)"
    (is "?L \<longleftrightarrow> ?R")
  proof
    assume l: ?L
    have "match_here (drop 0 (c # cs)) = None" using l by blast
    moreover have "match_here (drop i cs) = None" for i
    proof -
      have "match_here (drop (Suc i) (c # cs)) = None" using l by blast
      then show ?thesis by simp
    qed
    ultimately show ?R by simp
  next
    assume r: ?R
    show ?L
    proof
      fix i show "match_here (drop i (c # cs)) = None"
        using r by (cases i) simp_all
    qed
  qed
  with Cons show ?case by (cases "match_here (c # cs)") auto
qed

lemma val_ge: "n \<le> digits_value n cs"
proof (induction cs arbitrary: n)
  case Nil show ?case by simp
next
  case (Cons c cs)
  have "n \<le> 10 * n + (of_char c - 48)" by simp
  also have "\<dots> \<le> digits_value (10 * n + (of_char c - 48)) cs"
    by (rule Cons.IH)
  finally show ?case by simp
qed

lemma parse_digits_all:
  "\<forall>c\<in>set cs. re_digit c \<Longrightarrow> n \<le> maxv \<Longrightarrow>
   parse_digits maxv n cs =
     (if digits_value n cs \<le> maxv then Inr (digits_value n cs) else Inl ErrRange)"
proof (induction cs arbitrary: n)
  case Nil
  then show ?case by simp
next
  case (Cons c cs)
  then show ?case
    using val_ge [of "10 * n + (of_char c - 48)" cs]
    by (auto simp: Let_def)
qed

lemma Atoi_digits:
  assumes "ds \<noteq> []" and "\<forall>c\<in>set ds. re_digit c"
  shows "Atoi bits ds = (if decimal ds < 2 ^ (bits - 1) then Inr (int (decimal ds)) else Inl ErrRange)"
proof -
  from assms have "re_digit (hd ds)" by (cases ds) auto
  then have sign: "hd ds \<noteq> CHR ''-''" "hd ds \<noteq> CHR ''+''"
    by (auto simp: re_digit_def)
  have le: "decimal ds \<le> 2 ^ bits - 1" if "decimal ds < 2 ^ (bits - 1)"
  proof (cases bits)
    case 0
    with that show ?thesis by simp
  next
    case (Suc k)
    with that show ?thesis by simp
  qed
  have p: "parse_digits (2 ^ bits - 1) 0 ds =
     (if decimal ds \<le> 2 ^ bits - 1 then Inr (decimal ds) else Inl ErrRange)"
    using parse_digits_all [OF assms(2), of 0 "2 ^ bits - 1"] by (simp add: decimal_def)
  have "Atoi bits ds =
      (case parse_digits (2 ^ bits - 1) 0 ds of
         Inl e \<Rightarrow> Inl e
       | Inr un \<Rightarrow> if un \<ge> 2 ^ (bits - 1) then Inl ErrRange else Inr (int un))"
    using assms(1) sign by (simp add: Atoi_def Let_def split: sum.splits)
  also have "\<dots> = (if decimal ds < 2 ^ (bits - 1) then Inr (int (decimal ds)) else Inl ErrRange)"
    unfolding p using le by auto
  finally show ?thesis .
qed

lemma FindStringSubmatch_cases:
  "FindStringSubmatch s = [] \<or>
   (\<exists>i m g. FindStringSubmatch s = [m, g] \<and> match_here (drop i s) = Some (m, g))"
proof (induction s)
  case Nil
  show ?case by simp
next
  case (Cons c cs)
  show ?case
  proof (cases "match_here (c # cs)")
    case None
    from Cons.IH show ?thesis
    proof
      assume "FindStringSubmatch cs = []"
      with None show ?thesis by simp
    next
      assume "\<exists>i m g. FindStringSubmatch cs = [m, g] \<and> match_here (drop i cs) = Some (m, g)"
      then obtain i m g where
        "FindStringSubmatch cs = [m, g]" "match_here (drop i cs) = Some (m, g)" by blast
      with None have "FindStringSubmatch (c # cs) = [m, g] \<and>
          match_here (drop (Suc i) (c # cs)) = Some (m, g)" by simp
      then show ?thesis by blast
    qed
  next
    case (Some mg)
    obtain m g where mg: "mg = (m, g)" by (cases mg) blast
    with Some have "FindStringSubmatch (c # cs) = [m, g] \<and>
        match_here (drop 0 (c # cs)) = Some (m, g)" by simp
    then show ?thesis by blast
  qed
qed

lemma parseASNumber_first:
  assumes "occurs_at out i ds" and "\<forall>j<i. \<forall>ds'. \<not> occurs_at out j ds'"
  shows "parseASNumber bits out =
           (if decimal ds < 2 ^ (bits - 1) then Inr (int (decimal ds))
            else Inl (AtoiError ds ErrRange))"
proof -
  from assms(1) obtain m where m: "match_here (drop i out) = Some (m, ds)"
    unfolding occurs_at_iff by blast
  have "\<forall>j<i. match_here (drop j out) = None"
  proof (intro allI impI)
    fix j assume "j < i"
    with assms(2) have n: "\<forall>ds'. \<not> occurs_at out j ds'" by blast
    show "match_here (drop j out) = None"
    proof (cases "match_here (drop j out)")
      case None
      then show ?thesis .
    next
      case (Some mg)
      obtain m' g' where "mg = (m', g')" by (cases mg) blast
      with Some have "occurs_at out j g'" unfolding occurs_at_iff by blast
      with n show ?thesis by blast
    qed
  qed
  with m have f: "FindStringSubmatch out = [m, ds]" by (rule FindStringSubmatch_first)
  from match_here_elim [OF m] have d: "ds \<noteq> []" "\<forall>c\<in>set ds. re_digit c" by blast+
  have a: "Atoi bits ds =
      (if decimal ds < 2 ^ (bits - 1) then Inr (int (decimal ds)) else Inl ErrRange)"
    using d by (rule Atoi_digits)
  show ?thesis
    by (simp add: parseASNumber_def f a)
qed

lemma parseASNumber_not_found:
  "parseASNumber bits out = Inl ASNumberNotFound \<longleftrightarrow> (\<forall>i ds. \<not> occurs_at out i ds)"
proof
  assume a: "parseASNumber bits out = Inl ASNumberNotFound"
  have "FindStringSubmatch out = []"
  proof (rule ccontr)
    assume "FindStringSubmatch out \<noteq> []"
    with FindStringSubmatch_cases [of out] obtain m g where
      "FindStringSubmatch out = [m, g]" by blast
    then have "parseASNumber bits out \<noteq> Inl ASNumberNotFound"
      by (simp add: parseASNumber_def split: sum.splits)
    with a show False by blast
  qed
  then have "\<forall>i. match_here (drop i out) = None"
    by (rule iffD1 [OF FindStringSubmatch_Nil_iff])
  then show "\<forall>i ds. \<not> occurs_at out i ds" by (simp add: occurs_at_iff)
next
  assume "\<forall>i ds. \<not> occurs_at out i ds"
  then have "\<forall>i. match_here (drop i out) = None"
    unfolding occurs_at_iff by (metis option.exhaust surj_pair)
  then have "FindStringSubmatch out = []"
    by (rule iffD2 [OF FindStringSubmatch_Nil_iff])
  then show "parseASNumber bits out = Inl ASNumberNotFound"
    by (simp add: parseASNumber_def)
qed

lemma parseASNumber_range:
  assumes "parseASNumber bits out = Inr n"
  shows "0 \<le> n \<and> n < 2 ^ (bits - 1)"
proof -
  from FindStringSubmatch_cases [of out] assms obtain i m g where
    f: "FindStringSubmatch out = [m, g]" and m: "match_here (drop i out) = Some (m, g)"
    by (auto simp: parseASNumber_def)
  from match_here_elim [OF m] have d: "g \<noteq> []" "\<forall>c\<in>set g. re_digit c" by blast+
  have a: "Atoi bits g =
      (if decimal g < 2 ^ (bits - 1) then Inr (int (decimal g)) else Inl ErrRange)"
    using d by (rule Atoi_digits)
  from assms have "decimal g < 2 ^ (bits - 1)" and n: "n = int (decimal g)"
    by (simp_all add: parseASNumber_def f a split: if_splits)
  then have "int (decimal g) < int (2 ^ (bits - 1))" by (simp only: of_nat_less_iff)
  with n show ?thesis by simp
qed

lemma getASNumberByWhois_cases:
  "getASNumberByWhois env ip s =
     (case exec_Run env ''whois'' [ip] (fst s) of
        (Inl err, w') \<Rightarrow> (Inl (FailedToRunWhois err), (w', snd s @ [Exec ''whois'' [ip]]))
      | (Inr out, w') \<Rightarrow>
          (parseASNumber (intSize env) out, (w', snd s @ [Exec ''whois'' [ip]])))"
  by (simp add: getASNumberByWhois_def call_def split: prod.splits sum.splits)

section \<open>The origin lookup\<close>

text \<open>
  C3, as the code has it. When whois ran and printed \<open>out\<close>: if the pattern occurs in
  \<open>out\<close>, \<open>getASNumberByWhois\<close> looks at the first occurrence only (the one at the
  least offset; any later one is ignored) and returns the number its digits write when
  that number is below \<open>2 ^ (intSize - 1)\<close>, so that it fits an \<open>int\<close>; when it is not,
  the conversion fails and the range error of \<open>strconv.Atoi\<close> is returned. The error
  "AS number not found" is returned if and only if the pattern occurs nowhere in \<open>out\<close>.
\<close>

theorem origin_from_first_occurrence:
  assumes "exec_Run env ''whois'' [ip] (fst s) = (Inr out, w')"
  shows "(\<forall>i ds. occurs_at out i ds \<and> (\<forall>j<i. \<forall>ds'. \<not> occurs_at out j ds') \<longrightarrow>
            fst (getASNumberByWhois env ip s) =
              (if decimal ds < 2 ^ (intSize env - 1) then Inr (int (decimal ds))
               else Inl (AtoiError ds ErrRange))) \<and>
         (fst (getASNumberByWhois env ip s) = Inl ASNumberNotFound \<longleftrightarrow>
            (\<forall>i ds. \<not> occurs_at out i ds))"
proof -
  have g: "fst (getASNumberByWhois env ip s) = parseASNumber (intSize env) out"
    using assms by (simp add: getASNumberByWhois_cases)
  show ?thesis
    unfolding g using parseASNumber_first [of out] parseASNumber_not_found [of "intSize env" out]
    by blast
qed

theorem origin_from_first_occurrence_witness:
  "exec_Run (example_env []) ''whois'' [''192.0.2.7''] (fst (0::nat, [] :: event list)) =
     (Inr (''OriginAS: AS64500'' @ [newline] @ ''OriginAS: AS64501'' @ [newline]), 1) \<and>
   occurs_at (''OriginAS: AS64500'' @ [newline] @ ''OriginAS: AS64501'' @ [newline]) 0 ''64500'' \<and>
   occurs_at (''OriginAS: AS64500'' @ [newline] @ ''OriginAS: AS64501'' @ [newline]) 18 ''64501'' \<and>
   fst (getASNumberByWhois (example_env []) ''192.0.2.7'' (0, [])) = Inr 64500"
proof -
  let ?out = "''OriginAS: AS64500'' @ [newline] @ ''OriginAS: AS64501'' @ [newline]"
  have h: "exec_Run (example_env []) ''whois'' [''192.0.2.7''] (fst (0::nat, [] :: event list)) =
      (Inr ?out, 1)"
    by (simp add: example_env_def example_whois_def)
  have o1: "occurs_at ?out 0 ''64500''"
    by (simp add: occurs_at_iff match_here_def re_space_def re_digit_def newline_def Let_def)
  have o2: "occurs_at ?out 18 ''64501''"
    by (simp add: occurs_at_iff match_here_def re_space_def re_digit_def newline_def Let_def)
  have first: "occurs_at ?out 0 ''64500'' \<and> (\<forall>j<0. \<forall>ds'. \<not> occurs_at ?out j ds')"
    using o1 by simp
  have d: "decimal ''64500'' = 64500" by (simp add: decimal_def)
  have "fst (getASNumberByWhois (example_env []) ''192.0.2.7'' (0, [])) =
      (if decimal ''64500'' < 2 ^ (intSize (example_env []) - 1) then Inr (int (decimal ''64500''))
       else Inl (AtoiError ''64500'' ErrRange))"
    using origin_from_first_occurrence [OF h, THEN conjunct1, rule_format, OF first] .
  then have "fst (getASNumberByWhois (example_env []) ''192.0.2.7'' (0, [])) = Inr 64500"
    unfolding d by (simp add: example_env_def)
  with h o1 o2 show ?thesis by blast
qed

text \<open>
  The claim as stated fails on a registry answer whose digits write a number that does
  not fit an \<open>int\<close>: the pattern is there (the search finds it), and the lookup returns
  neither the AS number nor the error "AS number not found".
\<close>

theorem origin_out_of_range_counterexample:
  "exec_Run (example_env []) ''whois'' [''203.0.113.9''] 0 =
     (Inr (''OriginAS: AS99999999999999999999'' @ [newline]), 1) \<and>
   FindStringSubmatch (''OriginAS: AS99999999999999999999'' @ [newline]) =
     [''OriginAS: AS99999999999999999999'', ''99999999999999999999''] \<and>
   fst (getASNumberByWhois (example_env []) ''203.0.113.9'' (0, [])) =
     Inl (AtoiError ''99999999999999999999'' ErrRange)"
  by (simp add: getASNumberByWhois_def call_def example_env_def example_whois_def
        parseASNumber_def match_here_def re_space_def re_digit_def Atoi_def Let_def newline_def)

section \<open>The range of a returned AS number\<close>

text \<open>
  C8, as the code has it. An AS number returned by \<open>getASNumberByWhois\<close> is not
  negative and is below \<open>2 ^ (intSize - 1)\<close>. It may be zero: nothing in the code asks
  for a positive number.
\<close>

theorem as_number_not_negative:
  assumes "fst (getASNumberByWhois env ip s) = Inr n"
  shows "0 \<le> n \<and> n < 2 ^ (intSize env - 1)"
proof -
  obtain r w' where e: "exec_Run env ''whois'' [ip] (fst s) = (r, w')"
    by (cases "exec_Run env ''whois'' [ip] (fst s)") blast
  show ?thesis
  proof (cases r)
    case (Inl err)
    with e assms show ?thesis by (simp add: getASNumberByWhois_cases)
  next
    case (Inr out)
    with e assms have "parseASNumber (intSize env) out = Inr n"
      by (simp add: getASNumberByWhois_cases)
    then show ?thesis by (rule parseASNumber_range)
  qed
qed

theorem as_number_not_negative_witness:
  "fst (getASNumberByWhois (example_env []) ''93.184.216.34'' (0, [])) = Inr 15133 \<and>
   (0::int) \<le> 15133 \<and> (15133::int) < 2 ^ (intSize (example_env []) - 1)"
proof -
  have h: "fst (getASNumberByWhois (example_env []) ''93.184.216.34'' (0, [])) = Inr 15133"
    by (simp add: example_whois_com)
  from as_number_not_negative [OF h] h show ?thesis by blast
qed

text \<open>
  The claim as stated fails on a registry answer with the origin line \<open>AS0\<close>: the
  lookup succeeds and the number returned is zero.
\<close>

theorem as_number_zero_counterexample:
  "fst (getASNumberByWhois (example_env []) ''203.0.113.10'' (0, [])) = Inr 0 \<and> \<not> (0::int) < 0"
  by (simp add: getASNumberByWhois_def call_def example_env_def example_whois_def
        parseASNumber_def match_here_def re_space_def re_digit_def Atoi_def Let_def newline_def)

section \<open>A domain without addresses\<close>

text \<open>
  C1. For a domain for which dig prints nothing the pass does not stop at "No IPs
  found": \<open>getIPsByDig\<close> returns the one-element slice holding the empty string, and
  whois is called with the empty string. In the example world whois then fails and the
  pass ends with that error.
\<close>

theorem silent_domain_reaches_whois:
  "process_domain (example_env []) ((0, []), None) ''silent.example'' =
     ((2, [Print (ProcessingDomain ''silent.example''),
           Exec ''dig'' [''+short'', ''silent.example''],
           Exec ''whois'' [[]],
           Print (ErrorGettingASNumber ''silent.example'' (FailedToRunWhois ''exit status 1''))]),
      None)"
  by (simp add: process_domain_def resolve_ips_def getIPsByDig_def getASNumberByWhois_def
        call_def print_def example_env_def example_dig_def example_whois_def TrimSpace_def)

section \<open>The output for an empty accumulator\<close>

lemma foldl_append_slice_not_empty:
  "r \<noteq> Some [] \<Longrightarrow> foldl (\<lambda>res p. append_slice res (f p)) r ps \<noteq> Some []"
  by (induction ps arbitrary: r) (simp_all add: append_slice_def)

lemma process_domain_not_empty_slice:
  assumes "results \<noteq> Some []"
  shows "snd (process_domain env (s, results) domain) \<noteq> Some []"
proof (cases "snd (process_domain env (s, results) domain) = results")
  case True
  with assms show ?thesis by simp
next
  case False
  from accumulator_changes_only_on_success [OF False] obtain ips s1 asn s2 prefixes s3 where
    "getIPsByDig env domain (print (ProcessingDomain domain) s) = (Inr ips, s1)"
    "getASNumberByWhois env (ips ! 0) s1 = (Inr asn, s2)"
    "getIPPrefixes env asn (print (ASNumberForDomain domain (ips ! 0) asn) s2) = (Inr prefixes, s3)"
    by blast
  from pass_succeeds [OF this, of results] foldl_append_slice_not_empty [OF assms]
  show ?thesis by simp
qed

lemma process_domains_not_empty_slice:
  "results \<noteq> Some [] \<Longrightarrow> snd (process_domains env domains (s, results)) \<noteq> Some []"
proof (induction domains arbitrary: s results)
  case Nil
  then show ?case by (simp add: process_domains_def)
next
  case (Cons d ds)
  obtain s' results' where p: "process_domain env (s, results) d = (s', results')"
    by (cases "process_domain env (s, results) d") blast
  with process_domain_not_empty_slice [OF Cons.prems, of env s d] have "results' \<noteq> Some []"
    by simp
  from Cons.IH [OF this, of s'] p show ?case by (simp add: process_domains_def)
qed

lemma no_record_written_as_null:
  assumes "process_domains env domains (s, None) = (s', results)" and "elems results = []"
  shows "MarshalIndent q results = ''null''"
proof -
  have "results \<noteq> Some []"
    using process_domains_not_empty_slice [of None env domains s] assms(1) by simp
  with assms(2) have "results = None" by (cases results) (simp_all add: elems_def)
  then show ?thesis by (simp add: MarshalIndent_def)
qed

text \<open>
  C2. The accumulator starts as the nil slice and stays nil until a record is appended,
  and \<open>json.MarshalIndent\<close> writes a nil slice as \<open>null\<close>. A run in which no record is
  appended (here: the only domain fails in dig) writes \<open>null\<close> to the output file, not
  \<open>[]\<close>.
\<close>

theorem empty_accumulator_written_as_null:
  "main (example_env (''nodns.example'' @ [newline])) (0, []) =
     (4, [Executable,
          ReadFile ''/opt/tool/domains.txt'',
          Print (ProcessingDomain ''nodns.example''),
          Exec ''dig'' [''+short'', ''nodns.example''],
          Print (ErrorGettingIPs ''nodns.example'' (FailedToRunDig ''exit status 9'')),
          WriteFile ''/opt/tool/prefix.json'' ''null'',
          Print (PrefixesSaved ''/opt/tool/prefix.json'')])"
  by (simp add: main_def readDomainsFromFile_def process_domains_def process_domain_def
        getIPsByDig_def savePrefixesToFile_def MarshalIndent_def call_def print_def
        example_env_def example_dig_def TrimSpace_def space_width_def space_encodings_def
        newline_def Let_def)

end
